theory Spec2Isabelle
  imports Complex_Main
begin

section \<open>Python values shared by both notebooks\<close>

text \<open>
  The exceptions the modelled code can raise: an out-of-range positional read
  (\<^verbatim>\<open>iloc[i]\<close>, \<^verbatim>\<open>xs[i]\<close>), a lookup of a missing key (carrying the key), and
  the \<^verbatim>\<open>ValueError\<close> of \<^verbatim>\<open>pd.DataFrame\<close> on columns of unequal length.
\<close>

datatype py_error = IndexError | KeyError string | ValueError

text \<open>\<^verbatim>\<open>xs[i]\<close> for a non-negative index: raises past the end.\<close>

definition py_nth :: "'a list \<Rightarrow> nat \<Rightarrow> py_error + 'a" where
  "py_nth xs i = (if i < length xs then Inr (xs ! i) else Inl IndexError)"

text \<open>A \<^verbatim>\<open>for\<close> loop whose body may raise: the first exception ends the loop.\<close>

fun for_loop :: "('a \<Rightarrow> 's \<Rightarrow> py_error + 's) \<Rightarrow> 'a list \<Rightarrow> 's \<Rightarrow> py_error + 's" where
  "for_loop body [] s = Inr s"
| "for_loop body (x # xs) s =
     (case body x s of Inl e \<Rightarrow> Inl e | Inr s' \<Rightarrow> for_loop body xs s')"

text \<open>
  A dictionary of lists, in insertion order. \<open>dict_append k v d\<close> is the idiom
  \<^verbatim>\<open>if k not in d: d[k] = list()\<close> followed by \<^verbatim>\<open>d[k].append(v)\<close>.
\<close>

type_synonym 'v dict = "(string \<times> 'v list) list"

fun dict_append :: "string \<Rightarrow> 'v \<Rightarrow> 'v dict \<Rightarrow> 'v dict" where
  "dict_append k v [] = [(k, [v])]"
| "dict_append k v ((k', vs) # d) =
     (if k = k' then (k', vs @ [v]) # d else (k', vs) # dict_append k v d)"

text \<open>
  \<^verbatim>\<open>pd.DataFrame(d)\<close> on a dictionary of lists: the columns keep the dictionary's
  order; columns of unequal length raise \<^verbatim>\<open>ValueError\<close>. A frame is kept as its
  list of columns.
\<close>

fun same_length :: "'v dict \<Rightarrow> bool" where
  "same_length [] = True"
| "same_length [c] = True"
| "same_length (c # c' # d) = (length (snd c) = length (snd c') \<and> same_length (c' # d))"

definition DataFrame :: "'v dict \<Rightarrow> py_error + 'v dict" where
  "DataFrame d = (if same_length d then Inr d else Inl ValueError)"

text \<open>\<^verbatim>\<open>len(df)\<close>: the number of rows (zero for a frame without columns).\<close>

fun nrows :: "'v dict \<Rightarrow> nat" where
  "nrows [] = 0"
| "nrows ((k, vs) # d) = length vs"

text \<open>The values of column \<open>k\<close>, for reading a frame in a statement: empty when absent.\<close>

definition frame_col :: "'v dict \<Rightarrow> string \<Rightarrow> 'v list" where
  "frame_col df k = (case map_of df k of None \<Rightarrow> [] | Some vs \<Rightarrow> vs)"

section \<open>Starter notebook: the epoch extractor\<close>

text \<open>
  One row of the raw recording \<^verbatim>\<open>eeg_df\<close>: the \<^verbatim>\<open>time\<close> column in whole
  milliseconds (the notebook: "The time column is in ms, since we're sampling at 250Hz,
  each recording comes in at 4ms intervals"), the \<^verbatim>\<open>EventStart\<close> flag, and one
  sample per channel column. The trial duration is a whole number of milliseconds
  too, so the conversion \<^verbatim>\<open>int(start_time + trial_duration_ms)\<close> leaves the sum as
  it is.
\<close>

record eeg_row =
  time :: int
  EventStart :: int
  chan :: "string \<Rightarrow> real"

definition eeg_chans :: "string list" where
  "eeg_chans = [''C3'', ''Cz'', ''C4'']"

definition eog_chans :: "string list" where
  "eog_chans = [''EOG:ch01'', ''EOG:ch02'', ''EOG:ch03'']"

definition all_chans :: "string list" where
  "all_chans = eeg_chans @ eog_chans"

text \<open>A cell of the epoch table: a start time, an event label or a channel's samples.\<close>

datatype 'l cell = StartTime int | Label 'l | Samples "real list"

text \<open>\<^verbatim>\<open>getDF(epochs, labels, times, chans)\<close>; the argument \<^verbatim>\<open>times\<close> is written \<open>epoch_times\<close>.\<close>

definition getDF_row ::
  "real list list list \<Rightarrow> (int \<times> int) list \<Rightarrow> string list \<Rightarrow> nat \<times> 'l \<Rightarrow>
     'l cell dict \<Rightarrow> py_error + 'l cell dict" where
  "getDF_row epochs epoch_times chans = (\<lambda>(i, label) data_dict.
     case py_nth epoch_times i of Inl e \<Rightarrow> Inl e | Inr t \<Rightarrow>
       (let start_time = fst t;
           data_dict = dict_append ''start_time'' (StartTime start_time) data_dict;
           data_dict = dict_append ''event_type'' (Label label) data_dict
       in for_loop (\<lambda>ch data_dict.
            case py_nth epochs i of Inl e \<Rightarrow> Inl e | Inr epoch \<Rightarrow>
              (case py_nth epoch ch of Inl e \<Rightarrow> Inl e | Inr samples \<Rightarrow>
                 Inr (dict_append (chans ! ch) (Samples samples) data_dict)))
          [0..<length chans] data_dict))"

definition getDF ::
  "real list list list \<Rightarrow> 'l list \<Rightarrow> (int \<times> int) list \<Rightarrow> string list \<Rightarrow>
     py_error + 'l cell dict" where
  "getDF epochs labels epoch_times chans =
     (case for_loop (getDF_row epochs epoch_times chans) (enumerate 0 labels) [] of
        Inl e \<Rightarrow> Inl e
      | Inr data_dict \<Rightarrow> DataFrame data_dict)"

text \<open>
  \<^verbatim>\<open>getEpochedDF(eeg_df, event_df, trial_duration_ms)\<close>. \<open>event_df\<close> is the
  \<^verbatim>\<open>EventType\<close> column of the event table. The loop state is the three lists
  \<^verbatim>\<open>epochs\<close>, \<^verbatim>\<open>epoch_times\<close>, \<^verbatim>\<open>labels\<close>; \<^verbatim>\<open>start_df.iloc[i]\<close> raises
  \<^verbatim>\<open>IndexError\<close> when there is no \<open>i\<close>-th start marker.
\<close>

definition start_df :: "eeg_row list \<Rightarrow> eeg_row list" where
  "start_df eeg_df = filter (\<lambda>r. EventStart r = 1) eeg_df"

definition sub_df :: "eeg_row list \<Rightarrow> int \<Rightarrow> int \<Rightarrow> eeg_row list" where
  "sub_df eeg_df start_time end_time =
     filter (\<lambda>r. time r > start_time \<and> time r \<le> end_time) eeg_df"

definition epoch_step ::
  "eeg_row list \<Rightarrow> int \<Rightarrow> nat \<times> 'l \<Rightarrow>
     real list list list \<times> (int \<times> int) list \<times> 'l list \<Rightarrow>
     py_error + real list list list \<times> (int \<times> int) list \<times> 'l list" where
  "epoch_step eeg_df trial_duration_ms = (\<lambda>(i, event_type) (epochs, epoch_times, labels).
     case py_nth (start_df eeg_df) i of Inl e \<Rightarrow> Inl e | Inr row \<Rightarrow>
       (let start_time = time row;
           end_time = start_time + trial_duration_ms;
           eeg_dat = map (\<lambda>ch. map (\<lambda>r. chan r ch) (sub_df eeg_df start_time end_time)) all_chans
       in Inr (epochs @ [eeg_dat], epoch_times @ [(start_time, end_time)], labels @ [event_type])))"

definition getEpochedDF :: "eeg_row list \<Rightarrow> 'l list \<Rightarrow> int \<Rightarrow> py_error + 'l cell dict" where
  "getEpochedDF eeg_df event_df trial_duration_ms =
     (case for_loop (epoch_step eeg_df trial_duration_ms) (enumerate 0 event_df) ([], [], []) of
        Inl e \<Rightarrow> Inl e
      | Inr (epochs, epoch_times, labels) \<Rightarrow> getDF epochs labels epoch_times all_chans)"

text \<open>
  Names for what the extractor computes, used to state its properties: the samples of
  channel \<open>ch\<close> in the window of the \<open>i\<close>-th start marker, the \<open>i\<close>-th epoch and
  window, and the table \<^verbatim>\<open>getDF\<close> has built after \<open>j\<close> rows.
\<close>

definition window_samples :: "eeg_row list \<Rightarrow> int \<Rightarrow> nat \<Rightarrow> string \<Rightarrow> real list" where
  "window_samples eeg_df d i ch =
     map (\<lambda>r. chan r ch)
       (filter (\<lambda>r. time (start_df eeg_df ! i) < time r \<and> time r \<le> time (start_df eeg_df ! i) + d) eeg_df)"

definition epoch_at :: "eeg_row list \<Rightarrow> int \<Rightarrow> nat \<Rightarrow> real list list" where
  "epoch_at eeg_df d i = map (window_samples eeg_df d i) all_chans"

definition window_at :: "eeg_row list \<Rightarrow> int \<Rightarrow> nat \<Rightarrow> int \<times> int" where
  "window_at eeg_df d i = (time (start_df eeg_df ! i), time (start_df eeg_df ! i) + d)"

definition frame_upto :: "real list list list \<Rightarrow> 'l list \<Rightarrow> (int \<times> int) list \<Rightarrow> nat \<Rightarrow> 'l cell dict" where
  "frame_upto es ls ts j =
     (if j = 0 then []
      else (''start_time'', map (\<lambda>i. StartTime (fst (ts ! i))) [0..<j]) #
           (''event_type'', map (\<lambda>i. Label (ls ! i)) [0..<j]) #
           map (\<lambda>(k, c). (c, map (\<lambda>i. Samples (es ! i ! k)) [0..<j])) (enumerate 0 all_chans))"

definition epoch_frame :: "eeg_row list \<Rightarrow> 'l list \<Rightarrow> int \<Rightarrow> 'l cell dict" where
  "epoch_frame eeg_df event_df d =
     (if event_df = [] then []
      else (''start_time'', map (\<lambda>i. StartTime (time (start_df eeg_df ! i))) [0..<length event_df]) #
           (''event_type'', map Label event_df) #
           map (\<lambda>ch. (ch, map (\<lambda>i. Samples (window_samples eeg_df d i ch)) [0..<length event_df])) all_chans)"

text \<open>
  A recording sampled at \<open>fs\<close> Hz from time \<open>t0\<close>: consecutive rows are \<open>1000 / fs\<close>
  milliseconds apart (4 ms at 250 Hz).
\<close>

definition sampled_at :: "int \<Rightarrow> int \<Rightarrow> eeg_row list \<Rightarrow> bool" where
  "sampled_at fs t0 eeg_df \<longleftrightarrow>
     0 < fs \<and> fs dvd 1000 \<and>
     map time eeg_df = map (\<lambda>k. t0 + int k * (1000 div fs)) [0..<length eeg_df]"

text \<open>
  Two concrete recordings. \<open>synthetic_eeg\<close> is ten seconds at 250 Hz (2500 rows, 0 ms to
  9996 ms) with start markers at 0 ms and 4000 ms; \<open>tiny_eeg\<close> is five rows with start
  markers at 0 ms and 8 ms.
\<close>

definition synthetic_row :: "nat \<Rightarrow> eeg_row" where
  "synthetic_row k =
     \<lparr>time = 4 * int k, EventStart = (if k = 0 \<or> k = 1000 then 1 else 0), chan = (\<lambda>ch. real k)\<rparr>"

definition synthetic_eeg :: "eeg_row list" where
  "synthetic_eeg = map synthetic_row [0..<2500]"

definition tiny_eeg :: "eeg_row list" where
  "tiny_eeg =
     [\<lparr>time = 0, EventStart = 1, chan = (\<lambda>ch. 10)\<rparr>,
      \<lparr>time = 4, EventStart = 0, chan = (\<lambda>ch. 11)\<rparr>,
      \<lparr>time = 8, EventStart = 1, chan = (\<lambda>ch. 12)\<rparr>,
      \<lparr>time = 12, EventStart = 0, chan = (\<lambda>ch. 13)\<rparr>,
      \<lparr>time = 16, EventStart = 0, chan = (\<lambda>ch. 14)\<rparr>]"

section \<open>Feature notebook: numbers, strings and floats\<close>

text \<open>
  The boundary values of a binning are Python numbers, and the column keys are built
  from their \<^verbatim>\<open>str\<close>. An \<^verbatim>\<open>int\<close> prints as its decimal digits. A \<^verbatim>\<open>float\<close>
  is kept as the decimal expansion that \<^verbatim>\<open>repr\<close> prints for it in positional
  notation: sign, integer part and the digits after the point, so \<^verbatim>\<open>0.5\<close> is
  \<open>PyFloat False 0 [D5]\<close> and \<^verbatim>\<open>4.0\<close> is \<open>PyFloat False 4 [D0]\<close>.
\<close>

datatype digit = D0 | D1 | D2 | D3 | D4 | D5 | D6 | D7 | D8 | D9

fun digit_char :: "digit \<Rightarrow> char" where
  "digit_char D0 = CHR ''0''"
| "digit_char D1 = CHR ''1''"
| "digit_char D2 = CHR ''2''"
| "digit_char D3 = CHR ''3''"
| "digit_char D4 = CHR ''4''"
| "digit_char D5 = CHR ''5''"
| "digit_char D6 = CHR ''6''"
| "digit_char D7 = CHR ''7''"
| "digit_char D8 = CHR ''8''"
| "digit_char D9 = CHR ''9''"

fun digit_val :: "digit \<Rightarrow> nat" where
  "digit_val D0 = 0"
| "digit_val D1 = 1"
| "digit_val D2 = 2"
| "digit_val D3 = 3"
| "digit_val D4 = 4"
| "digit_val D5 = 5"
| "digit_val D6 = 6"
| "digit_val D7 = 7"
| "digit_val D8 = 8"
| "digit_val D9 = 9"

definition nat_digit :: "nat \<Rightarrow> digit" where
  "nat_digit n = [D0, D1, D2, D3, D4, D5, D6, D7, D8, D9] ! (n mod 10)"

fun str_nat :: "nat \<Rightarrow> string" where
  "str_nat n =
     (if n < 10 then [digit_char (nat_digit n)]
      else str_nat (n div 10) @ [digit_char (nat_digit (n mod 10))])"

definition str_int :: "int \<Rightarrow> string" where
  "str_int i = (if i < 0 then CHR ''-'' # str_nat (nat (- i)) else str_nat (nat i))"

datatype pynum = PyInt int | PyFloat bool nat "digit list"

fun py_str :: "pynum \<Rightarrow> string" where
  "py_str (PyInt i) = str_int i"
| "py_str (PyFloat neg ip ds) =
     (if neg then ''-'' else []) @ str_nat ip @ ''.'' @ map digit_char ds"

fun frac_val :: "digit list \<Rightarrow> rat" where
  "frac_val [] = 0"
| "frac_val (d # ds) = (of_nat (digit_val d) + frac_val ds) / 10"

fun num_val :: "pynum \<Rightarrow> rat" where
  "num_val (PyInt i) = of_int i"
| "num_val (PyFloat neg ip ds) = (if neg then - 1 else 1) * (of_nat ip + frac_val ds)"

text \<open>\<^verbatim>\<open>str\<close> of a pair of numbers, \<^verbatim>\<open>str((4, 7)) = "(4, 7)"\<close>.\<close>

definition str_interval :: "pynum \<times> pynum \<Rightarrow> string" where
  "str_interval interval = ''('' @ py_str (fst interval) @ '', '' @ py_str (snd interval) @ '')''"

text \<open>
  A \<^verbatim>\<open>float64\<close> as numpy computes with it: a real number, an infinity or NaN. Rounding
  and the sign of zero are left out. Dividing by zero gives an infinity or NaN (numpy
  warns and does not raise).
\<close>

datatype npfloat = Fin real | PosInf | NegInf | NaN

fun np_divide :: "npfloat \<Rightarrow> npfloat \<Rightarrow> npfloat" where
  "np_divide (Fin a) (Fin b) =
     (if b \<noteq> 0 then Fin (a / b) else if 0 < a then PosInf else if a < 0 then NegInf else NaN)"
| "np_divide (Fin a) PosInf = Fin 0"
| "np_divide (Fin a) NegInf = Fin 0"
| "np_divide PosInf (Fin b) = (if 0 \<le> b then PosInf else NegInf)"
| "np_divide NegInf (Fin b) = (if 0 \<le> b then NegInf else PosInf)"
| "np_divide x y = NaN"

fun np_subtract :: "npfloat \<Rightarrow> npfloat \<Rightarrow> npfloat" where
  "np_subtract (Fin a) (Fin b) = Fin (a - b)"
| "np_subtract (Fin a) PosInf = NegInf"
| "np_subtract (Fin a) NegInf = PosInf"
| "np_subtract PosInf (Fin b) = PosInf"
| "np_subtract PosInf NegInf = PosInf"
| "np_subtract NegInf (Fin b) = NegInf"
| "np_subtract NegInf PosInf = NegInf"
| "np_subtract x y = NaN"

text \<open>
  A cell of a feature table: the integer label of column \<^verbatim>\<open>y\<close> or a float.
  Reading a row (\<^verbatim>\<open>iterrows\<close>) or a column as numbers turns a label into a float.
\<close>

datatype num_cell = IntCell int | FloatCell npfloat

fun cell_float :: "num_cell \<Rightarrow> npfloat" where
  "cell_float (IntCell l) = Fin (of_int l)"
| "cell_float (FloatCell x) = x"

fun cell_eq_int :: "num_cell \<Rightarrow> int \<Rightarrow> bool" where
  "cell_eq_int (IntCell l) n = (l = n)"
| "cell_eq_int (FloatCell x) n = (x = Fin (of_int n))"

section \<open>Feature notebook: the power-bin table\<close>

text \<open>
  \<^verbatim>\<open>pyeeg.bin_power(X, Band, Fs)\<close> is a library routine outside the repository; it is
  a parameter \<open>bp\<close> of the model, returning the pair \<open>(power, power_ratio)\<close> or raising.
\<close>

type_synonym bin_power = "real list \<Rightarrow> pynum list \<Rightarrow> nat \<Rightarrow> py_error + real list \<times> real list"

definition getPowerRatio :: "bin_power \<Rightarrow> real list \<Rightarrow> pynum list \<Rightarrow> nat \<Rightarrow> py_error + real list" where
  "getPowerRatio bp eeg_data binning eeg_fs =
     (case bp eeg_data binning eeg_fs of
        Inl e \<Rightarrow> Inl e
      | Inr (bin_pow, power_ratio) \<Rightarrow> Inr power_ratio)"

text \<open>\<^verbatim>\<open>getIntervals(binning)\<close>; \<^verbatim>\<open>binning[:-1]\<close> is \<open>butlast binning\<close>.\<close>

definition getIntervals :: "pynum list \<Rightarrow> py_error + (pynum \<times> pynum) list" where
  "getIntervals binning =
     for_loop (\<lambda>(i, val) intervals.
         case py_nth binning (i + 1) of
           Inl e \<Rightarrow> Inl e
         | Inr nxt \<Rightarrow> Inr (intervals @ [(val, nxt)]))
       (enumerate 0 (butlast binning)) []"

text \<open>
  One row of the epoch table \<^verbatim>\<open>eeg_epoch_full_df\<close> read from the pickle: the
  \<^verbatim>\<open>event_type\<close> label (0 or 1) and the sample sequence of each channel column.
\<close>

record epoch_row =
  event_type :: int
  samples :: "string \<Rightarrow> real list"

text \<open>
  The cell that builds \<^verbatim>\<open>power_ratios\<close> and \<^verbatim>\<open>power_ratios_df\<close>, as a function of
  the epoch table and the binning. The dictionary starts as \<^verbatim>\<open>{'y': []}\<close>.
\<close>

definition power_ratios_row ::
  "bin_power \<Rightarrow> pynum list \<Rightarrow> (pynum \<times> pynum) list \<Rightarrow> epoch_row \<Rightarrow>
     num_cell dict \<Rightarrow> py_error + num_cell dict" where
  "power_ratios_row bp binning intervals row power_ratios =
     (case for_loop (\<lambda>ch power_ratios.
              case getPowerRatio bp (samples row ch) binning 250 of
                Inl e \<Rightarrow> Inl e
              | Inr ratios \<Rightarrow>
                  for_loop (\<lambda>(j, interval) power_ratios.
                      case py_nth ratios j of
                        Inl e \<Rightarrow> Inl e
                      | Inr r \<Rightarrow>
                          Inr (dict_append (ch @ ''_'' @ str_interval interval)
                                 (FloatCell (Fin r)) power_ratios))
                    (enumerate 0 intervals) power_ratios)
            eeg_chans power_ratios of
        Inl e \<Rightarrow> Inl e
      | Inr power_ratios \<Rightarrow> Inr (dict_append ''y'' (IntCell (event_type row)) power_ratios))"

definition power_ratios_df ::
  "bin_power \<Rightarrow> epoch_row list \<Rightarrow> pynum list \<Rightarrow> py_error + num_cell dict" where
  "power_ratios_df bp eeg_epoch_full_df binning =
     (case getIntervals binning of
        Inl e \<Rightarrow> Inl e
      | Inr intervals \<Rightarrow>
          (case for_loop (power_ratios_row bp binning intervals) eeg_epoch_full_df [(''y'', [])] of
             Inl e \<Rightarrow> Inl e
           | Inr power_ratios \<Rightarrow> DataFrame power_ratios))"

section \<open>Feature notebook: per-class statistics\<close>

text \<open>
  \<^verbatim>\<open>np.std\<close> and \<^verbatim>\<open>np.mean\<close> of a pandas column go to the column's own
  \<^verbatim>\<open>std(ddof=0)\<close> and \<^verbatim>\<open>mean()\<close>, which skip NaN entries; \<open>np_std\<close> takes the
  \<^verbatim>\<open>ddof\<close> that \<^verbatim>\<open>np.std\<close> passes, its default 0. Both give NaN on no data and when
  an infinity makes the sum undefined.
\<close>

fun fin_vals :: "npfloat list \<Rightarrow> real list option" where
  "fin_vals [] = Some []"
| "fin_vals (Fin a # xs) = (case fin_vals xs of None \<Rightarrow> None | Some as \<Rightarrow> Some (a # as))"
| "fin_vals (x # xs) = None"

definition np_std :: "nat \<Rightarrow> npfloat list \<Rightarrow> npfloat" where
  "np_std ddof xs =
     (case fin_vals (filter (\<lambda>x. x \<noteq> NaN) xs) of
        None \<Rightarrow> NaN
      | Some vs \<Rightarrow>
          if length vs \<le> ddof then NaN
          else Fin (sqrt (sum_list (map (\<lambda>v. \<bar>v - sum_list vs / real (length vs)\<bar> ^ 2) vs)
                          / real (length vs - ddof))))"

definition np_mean :: "npfloat list \<Rightarrow> npfloat" where
  "np_mean xs =
     (let ys = filter (\<lambda>x. x \<noteq> NaN) xs in
      case fin_vals ys of
        Some vs \<Rightarrow> if vs = [] then NaN else Fin (sum_list vs / real (length vs))
      | None \<Rightarrow>
          if PosInf \<in> set ys \<and> NegInf \<in> set ys then NaN
          else if PosInf \<in> set ys then PosInf else NegInf)"

definition np_sqrt :: "nat \<Rightarrow> npfloat" where
  "np_sqrt n = Fin (sqrt (real n))"

definition event_types :: "(int \<times> string) list" where
  "event_types = [(0, ''left''), (1, ''right'')]"

text \<open>
  \<^verbatim>\<open>power_ratios_df[power_ratios_df['y'] == event_type][key]\<close> as floats: the cells
  of column \<open>key\<close> in the rows whose label is \<open>event_type\<close>.
\<close>

definition this_data :: "num_cell dict \<Rightarrow> int \<Rightarrow> string \<Rightarrow> py_error + npfloat list" where
  "this_data df et key =
     (case map_of df ''y'' of
        None \<Rightarrow> Inl (KeyError ''y'')
      | Some ycol \<Rightarrow>
          (case map_of df key of
             None \<Rightarrow> Inl (KeyError key)
           | Some col \<Rightarrow>
               Inr (map (cell_float \<circ> snd) (filter (\<lambda>(l, c). cell_eq_int l et) (zip ycol col)))))"

definition chan_frequency_stats ::
  "num_cell dict \<Rightarrow> (pynum \<times> pynum) list \<Rightarrow> py_error + npfloat dict \<times> npfloat dict" where
  "chan_frequency_stats df intervals =
     for_loop (\<lambda>et acc.
         for_loop (\<lambda>ch acc.
             for_loop (\<lambda>interval (chan_frequency_sems, chan_frequency_avgs).
                 let key = ch @ ''_'' @ str_interval interval in
                 case this_data df et key of
                   Inl e \<Rightarrow> Inl e
                 | Inr xs \<Rightarrow>
                     (let sem = np_divide (np_std 0 xs) (np_sqrt (length xs))
                      in Inr (dict_append key sem chan_frequency_sems,
                              dict_append key (np_mean xs) chan_frequency_avgs)))
               intervals acc)
           eeg_chans acc)
       (map fst event_types) ([], [])"

definition std_err_df :: "num_cell dict \<Rightarrow> (pynum \<times> pynum) list \<Rightarrow> py_error + npfloat dict" where
  "std_err_df df intervals =
     (case chan_frequency_stats df intervals of
        Inl e \<Rightarrow> Inl e
      | Inr (chan_frequency_sems, chan_frequency_avgs) \<Rightarrow> DataFrame chan_frequency_sems)"

definition avg_df :: "num_cell dict \<Rightarrow> (pynum \<times> pynum) list \<Rightarrow> py_error + npfloat dict" where
  "avg_df df intervals =
     (case chan_frequency_stats df intervals of
        Inl e \<Rightarrow> Inl e
      | Inr (chan_frequency_sems, chan_frequency_avgs) \<Rightarrow> DataFrame chan_frequency_avgs)"

text \<open>
  The population standard deviation and the sample standard deviation of a list of
  reals, written from their textbook definitions, to compare \<open>np_std\<close> with.
\<close>

definition mean_of :: "real list \<Rightarrow> real" where
  "mean_of xs = sum_list xs / real (length xs)"

definition population_sd :: "real list \<Rightarrow> real" where
  "population_sd xs = sqrt (sum_list (map (\<lambda>x. (x - mean_of xs) ^ 2) xs) / real (length xs))"

definition sample_sd :: "real list \<Rightarrow> real" where
  "sample_sd xs = sqrt (sum_list (map (\<lambda>x. (x - mean_of xs) ^ 2) xs) / real (length xs - 1))"

section \<open>Feature notebook: band ratios, channel differences, the feature table\<close>

text \<open>
  \<^verbatim>\<open>df.iterrows()\<close>: the rows of a frame, each a lookup from column name to float.
  A frame comes from \<^verbatim>\<open>pd.DataFrame\<close>, whose columns have one cell per row.
  In the two cells below \<open>pr_df\<close> is the notebook's \<^verbatim>\<open>power_ratios_df\<close>, and the
  dictionaries \<^verbatim>\<open>theta_beta_ratios\<close> and \<^verbatim>\<open>C3_C4_differences\<close> are the loop
  states \<open>ratios_dict\<close> and \<open>diffs_dict\<close>.
\<close>

definition iterrows :: "num_cell dict \<Rightarrow> (string \<times> npfloat) list list" where
  "iterrows df = map (\<lambda>i. map (\<lambda>(k, col). (k, cell_float (col ! i))) df) [0..<nrows df]"

definition row_get :: "(string \<times> npfloat) list \<Rightarrow> string \<Rightarrow> py_error + npfloat" where
  "row_get row key = (case map_of row key of None \<Rightarrow> Inl (KeyError key) | Some v \<Rightarrow> Inr v)"

definition theta_beta_ratios :: "num_cell dict \<Rightarrow> py_error + num_cell dict" where
  "theta_beta_ratios pr_df =
     for_loop (\<lambda>row ratios_dict.
         for_loop (\<lambda>ch ratios_dict.
             let curr_key = ch @ ''_theta_beta'';
                 power_bin_theta_key = ch @ ''_(4, 7)'';
                 power_bin_beta_key = ch @ ''_(12, 30)''
             in case row_get row power_bin_theta_key of
                  Inl e \<Rightarrow> Inl e
                | Inr theta_val \<Rightarrow>
                    (case row_get row power_bin_beta_key of
                       Inl e \<Rightarrow> Inl e
                     | Inr beta_val \<Rightarrow>
                         Inr (dict_append curr_key (FloatCell (np_divide theta_val beta_val))
                                ratios_dict)))
           eeg_chans ratios_dict)
       (iterrows pr_df) []"

definition band_ratios_df :: "num_cell dict \<Rightarrow> py_error + num_cell dict" where
  "band_ratios_df pr_df =
     (case theta_beta_ratios pr_df of
        Inl e \<Rightarrow> Inl e
      | Inr d \<Rightarrow> DataFrame d)"

definition C3_C4_differences ::
  "num_cell dict \<Rightarrow> (pynum \<times> pynum) list \<Rightarrow> py_error + num_cell dict" where
  "C3_C4_differences pr_df intervals =
     for_loop (\<lambda>row diffs_dict.
         for_loop (\<lambda>interval diffs_dict.
             let curr_key = ''C3_C4_diff_'' @ str_interval interval;
                 power_bin_C3_key = ''C3_'' @ str_interval interval;
                 power_bin_C4_key = ''C4_'' @ str_interval interval
             in case row_get row power_bin_C3_key of
                  Inl e \<Rightarrow> Inl e
                | Inr C3_val \<Rightarrow>
                    (case row_get row power_bin_C4_key of
                       Inl e \<Rightarrow> Inl e
                     | Inr C4_val \<Rightarrow>
                         Inr (dict_append curr_key (FloatCell (np_subtract C3_val C4_val))
                                diffs_dict)))
           intervals diffs_dict)
       (iterrows pr_df) []"

definition C3_C4_differences_df ::
  "num_cell dict \<Rightarrow> (pynum \<times> pynum) list \<Rightarrow> py_error + num_cell dict" where
  "C3_C4_differences_df pr_df intervals =
     (case C3_C4_differences pr_df intervals of
        Inl e \<Rightarrow> Inl e
      | Inr d \<Rightarrow> DataFrame d)"

text \<open>
  \<^verbatim>\<open>pd.concat(frames, axis=1)\<close> of frames indexed \<open>0, 1, ...\<close>: the columns side by
  side in the order given; a frame with fewer rows is filled with NaN (its labels
  becoming floats).
\<close>

definition pad_col :: "nat \<Rightarrow> num_cell list \<Rightarrow> num_cell list" where
  "pad_col n col =
     (if length col < n
      then map (FloatCell \<circ> cell_float) col @ replicate (n - length col) (FloatCell NaN)
      else col)"

definition pd_concat :: "num_cell dict list \<Rightarrow> num_cell dict" where
  "pd_concat frames =
     (let n = fold max (map nrows frames) 0
      in concat (map (map (\<lambda>(k, col). (k, pad_col n col))) frames))"

text \<open>The last cell's \<^verbatim>\<open>feature_df\<close>, from the binning on.\<close>

definition feature_df ::
  "bin_power \<Rightarrow> epoch_row list \<Rightarrow> pynum list \<Rightarrow> py_error + num_cell dict" where
  "feature_df bp eeg_epoch_full_df binning =
     (case getIntervals binning of
        Inl e \<Rightarrow> Inl e
      | Inr intervals \<Rightarrow>
     (case power_ratios_df bp eeg_epoch_full_df binning of
        Inl e \<Rightarrow> Inl e
      | Inr pr \<Rightarrow>
     (case band_ratios_df pr of
        Inl e \<Rightarrow> Inl e
      | Inr br \<Rightarrow>
     (case C3_C4_differences_df pr intervals of
        Inl e \<Rightarrow> Inl e
      | Inr cd \<Rightarrow> Inr (pd_concat [pr, br, cd])))))"

section \<open>Feature notebook: names used in the statements\<close>

text \<open>
  Names for the intermediate values of the cells: the dictionary reached by a sequence
  of appends, the appends one epoch contributes to \<^verbatim>\<open>power_ratios\<close>, the cell
  that one row and one key contribute to the later tables, the tables these add up to,
  and small concrete inputs.
\<close>

definition dict_extend :: "'v dict \<Rightarrow> (string \<times> 'v) list \<Rightarrow> 'v dict" where
  "dict_extend d kvs = fold (\<lambda>(k, v) d. dict_append k v d) kvs d"

definition ratios_of :: "bin_power \<Rightarrow> pynum list \<Rightarrow> epoch_row \<Rightarrow> string \<Rightarrow> real list" where
  "ratios_of bp binning row ch =
     (case bp (samples row ch) binning 250 of Inl e \<Rightarrow> [] | Inr (bin_pow, power_ratio) \<Rightarrow> power_ratio)"

definition bin_power_ok :: "bin_power \<Rightarrow> pynum list \<Rightarrow> nat \<Rightarrow> epoch_row \<Rightarrow> bool" where
  "bin_power_ok bp binning n row =
     list_all (\<lambda>ch. case bp (samples row ch) binning 250 of
                       Inl e \<Rightarrow> False
                     | Inr (bin_pow, power_ratio) \<Rightarrow> n \<le> length power_ratio) eeg_chans"

definition chan_cells ::
  "bin_power \<Rightarrow> pynum list \<Rightarrow> (pynum \<times> pynum) list \<Rightarrow> epoch_row \<Rightarrow> string \<Rightarrow> (string \<times> num_cell) list" where
  "chan_cells bp binning intervals row ch =
     map (\<lambda>(j, interval). (ch @ ''_'' @ str_interval interval,
                            FloatCell (Fin (ratios_of bp binning row ch ! j))))
       (enumerate 0 intervals)"

definition row_appends ::
  "bin_power \<Rightarrow> pynum list \<Rightarrow> (pynum \<times> pynum) list \<Rightarrow> epoch_row \<Rightarrow> (string \<times> num_cell) list" where
  "row_appends bp binning intervals row =
     concat (map (chan_cells bp binning intervals row) eeg_chans) @ [(''y'', IntCell (event_type row))]"

definition consecutive :: "'a list \<Rightarrow> ('a \<times> 'a) list" where
  "consecutive binning = zip (butlast binning) (tl binning)"

definition power_ratios_dict :: "bin_power \<Rightarrow> epoch_row list \<Rightarrow> pynum list \<Rightarrow> num_cell dict" where
  "power_ratios_dict bp epochs binning =
     dict_extend [(''y'', [])] (concat (map (row_appends bp binning (consecutive binning)) epochs))"

definition ratio_keys :: "(pynum \<times> pynum) list \<Rightarrow> string list" where
  "ratio_keys intervals =
     concat (map (\<lambda>ch. map (\<lambda>interval. ch @ ''_'' @ str_interval interval) intervals) eeg_chans)"

definition chan_step ::
  "bin_power \<Rightarrow> pynum list \<Rightarrow> (pynum \<times> pynum) list \<Rightarrow> epoch_row \<Rightarrow> string \<Rightarrow>
     num_cell dict \<Rightarrow> py_error + num_cell dict" where
  "chan_step bp binning intervals row = (\<lambda>ch power_ratios.
              case getPowerRatio bp (samples row ch) binning 250 of
                Inl e \<Rightarrow> Inl e
              | Inr ratios \<Rightarrow>
                  for_loop (\<lambda>(j, interval) power_ratios.
                      case py_nth ratios j of
                        Inl e \<Rightarrow> Inl e
                      | Inr r \<Rightarrow>
                          Inr (dict_append (ch @ ''_'' @ str_interval interval)
                                 (FloatCell (Fin r)) power_ratios))
                    (enumerate 0 intervals) power_ratios)"

definition chan_ok :: "bin_power \<Rightarrow> pynum list \<Rightarrow> nat \<Rightarrow> epoch_row \<Rightarrow> string \<Rightarrow> bool" where
  "chan_ok bp binning n row ch =
     (case bp (samples row ch) binning 250 of
        Inl e \<Rightarrow> False
      | Inr (bin_pow, power_ratio) \<Rightarrow> n \<le> length power_ratio)"

definition default_binning :: "pynum list" where
  "default_binning = [PyFloat False 0 [D5], PyInt 4, PyInt 7, PyInt 12, PyInt 30]"

definition demo_bin_power :: bin_power where
  "demo_bin_power X Band Fs =
     (if Band = [] then Inl ValueError
      else Inr (map (\<lambda>j. real (j + 1) * sum_list X) [0..<length Band - 1],
                map (\<lambda>j. real (j + 1) * sum_list X / 10) [0..<length Band - 1]))"

definition demo_epochs :: "epoch_row list" where
  "demo_epochs =
     [\<lparr>event_type = 0, samples = (\<lambda>ch. if ch = ''C3'' then [1, 2] else [3])\<rparr>,
      \<lparr>event_type = 1, samples = (\<lambda>ch. if ch = ''C4'' then [0] else [1])\<rparr>,
      \<lparr>event_type = 0, samples = (\<lambda>ch. [2])\<rparr>]"

definition row_at :: "num_cell dict \<Rightarrow> nat \<Rightarrow> (string \<times> npfloat) list" where
  "row_at df i = map (\<lambda>(k, col). (k, cell_float (col ! i))) df"

definition theta_beta_cell :: "(string \<times> npfloat) list \<Rightarrow> string \<Rightarrow> py_error + string \<times> num_cell" where
  "theta_beta_cell row ch =
     (case row_get row (ch @ ''_(4, 7)'') of
        Inl e \<Rightarrow> Inl e
      | Inr theta_val \<Rightarrow>
          (case row_get row (ch @ ''_(12, 30)'') of
             Inl e \<Rightarrow> Inl e
           | Inr beta_val \<Rightarrow> Inr (ch @ ''_theta_beta'', FloatCell (np_divide theta_val beta_val))))"

definition diff_cell ::
  "(string \<times> npfloat) list \<Rightarrow> pynum \<times> pynum \<Rightarrow> py_error + string \<times> num_cell" where
  "diff_cell row interval =
     (case row_get row (''C3_'' @ str_interval interval) of
        Inl e \<Rightarrow> Inl e
      | Inr C3_val \<Rightarrow>
          (case row_get row (''C4_'' @ str_interval interval) of
             Inl e \<Rightarrow> Inl e
           | Inr C4_val \<Rightarrow>
               Inr (''C3_C4_diff_'' @ str_interval interval, FloatCell (np_subtract C3_val C4_val))))"

definition cell_loop ::
  "('r \<Rightarrow> 'x \<Rightarrow> py_error + string \<times> 'v) \<Rightarrow> 'r list \<Rightarrow> 'x list \<Rightarrow> 'v dict \<Rightarrow> py_error + 'v dict" where
  "cell_loop cell rows xs d =
     for_loop (\<lambda>row d.
         for_loop (\<lambda>x d. case cell row x of Inl e \<Rightarrow> Inl e
                                            | Inr kv \<Rightarrow> Inr (dict_append (fst kv) (snd kv) d))
           xs d)
       rows d"

definition table_dict :: "('x \<Rightarrow> string) \<Rightarrow> ('r \<Rightarrow> 'x \<Rightarrow> 'v) \<Rightarrow> 'r list \<Rightarrow> 'x list \<Rightarrow> 'v dict" where
  "table_dict key val rows xs =
     dict_extend [] (concat (map (\<lambda>r. map (\<lambda>x. (key x, val r x)) xs) rows))"

definition theta_beta_value :: "num_cell dict \<Rightarrow> nat \<Rightarrow> string \<Rightarrow> num_cell" where
  "theta_beta_value pr i ch =
     FloatCell (np_divide (cell_float (frame_col pr (ch @ ''_(4, 7)'') ! i))
                          (cell_float (frame_col pr (ch @ ''_(12, 30)'') ! i)))"

definition diff_value :: "num_cell dict \<Rightarrow> nat \<Rightarrow> pynum \<times> pynum \<Rightarrow> num_cell" where
  "diff_value pr i interval =
     FloatCell (np_subtract (cell_float (frame_col pr (''C3_'' @ str_interval interval) ! i))
                            (cell_float (frame_col pr (''C4_'' @ str_interval interval) ! i)))"

definition band_dict :: "num_cell dict \<Rightarrow> num_cell dict" where
  "band_dict pr = table_dict (\<lambda>ch. ch @ ''_theta_beta'') (theta_beta_value pr) [0..<nrows pr] eeg_chans"

definition diff_dict :: "num_cell dict \<Rightarrow> (pynum \<times> pynum) list \<Rightarrow> num_cell dict" where
  "diff_dict pr intervals =
     table_dict (\<lambda>interval. ''C3_C4_diff_'' @ str_interval interval) (diff_value pr) [0..<nrows pr] intervals"

definition demo_ratios :: "num_cell dict" where
  "demo_ratios =
     [(''y'', [IntCell 0, IntCell 1]),
      (''C3_(4, 7)'', [FloatCell (Fin 1), FloatCell (Fin 2)]),
      (''C3_(12, 30)'', [FloatCell (Fin 4), FloatCell (Fin 0)]),
      (''Cz_(4, 7)'', [FloatCell (Fin 0), FloatCell (Fin 0)]),
      (''Cz_(12, 30)'', [FloatCell (Fin 1), FloatCell (Fin 0)]),
      (''C4_(4, 7)'', [FloatCell (Fin (- 1)), FloatCell (Fin (- 1))]),
      (''C4_(12, 30)'', [FloatCell (Fin 2), FloatCell (Fin 0)])]"

definition class_data :: "num_cell dict \<Rightarrow> int \<Rightarrow> string \<Rightarrow> npfloat list" where
  "class_data df et key = (case this_data df et key of Inl e \<Rightarrow> [] | Inr xs \<Rightarrow> xs)"

definition sem_of :: "npfloat list \<Rightarrow> npfloat" where
  "sem_of xs = np_divide (np_std 0 xs) (np_sqrt (length xs))"

definition stat_dict ::
  "(npfloat list \<Rightarrow> npfloat) \<Rightarrow> num_cell dict \<Rightarrow> (pynum \<times> pynum) list \<Rightarrow> npfloat dict" where
  "stat_dict stat df intervals =
     table_dict (\<lambda>(ch, interval). ch @ ''_'' @ str_interval interval)
       (\<lambda>et (ch, interval). stat (class_data df et (ch @ ''_'' @ str_interval interval)))
       (map fst event_types) (List.product eeg_chans intervals)"

definition stat_body ::
  "num_cell dict \<Rightarrow> int \<Rightarrow> string \<Rightarrow> pynum \<times> pynum \<Rightarrow> npfloat dict \<times> npfloat dict \<Rightarrow>
     py_error + npfloat dict \<times> npfloat dict" where
  "stat_body df et ch = (\<lambda>interval (chan_frequency_sems, chan_frequency_avgs).
                 let key = ch @ ''_'' @ str_interval interval in
                 case this_data df et key of
                   Inl e \<Rightarrow> Inl e
                 | Inr xs \<Rightarrow>
                     (let sem = np_divide (np_std 0 xs) (np_sqrt (length xs))
                      in Inr (dict_append key sem chan_frequency_sems,
                              dict_append key (np_mean xs) chan_frequency_avgs)))"

section \<open>The epoch extractor: what it returns\<close>

lemma getDF_row_step:
  assumes "j < length ts" "j < length es" "length (es ! j) = 6"
  shows "getDF_row es ts all_chans (j, ls ! j) (frame_upto es ls ts j) = Inr (frame_upto es ls ts (Suc j))"
  using assms
  by (cases "j = 0")
    (simp_all add: getDF_row_def frame_upto_def py_nth_def all_chans_def eeg_chans_def eog_chans_def Let_def)

lemma getDF_loop:
  assumes "length ts = n" "length es = n" "length ls = n" "\<forall>e \<in> set es. length e = 6"
  shows "j \<le> n \<Longrightarrow> for_loop (getDF_row es ts all_chans) (enumerate j (drop j ls)) (frame_upto es ls ts j)
           = Inr (frame_upto es ls ts n)"
proof (induction "n - j" arbitrary: j)
  case 0
  then show ?case using assms by simp
next
  case (Suc m)
  then have j: "j < n" by simp
  then have dr: "drop j ls = ls ! j # drop (Suc j) ls"
    using assms by (simp add: Cons_nth_drop_Suc)
  have len: "length (es ! j) = 6" using assms j by simp
  have step: "getDF_row es ts all_chans (j, ls ! j) (frame_upto es ls ts j) = Inr (frame_upto es ls ts (Suc j))"
    using getDF_row_step[of j ts es ls] assms j len by simp
  have "for_loop (getDF_row es ts all_chans) (enumerate (Suc j) (drop (Suc j) ls)) (frame_upto es ls ts (Suc j))
           = Inr (frame_upto es ls ts n)"
    using Suc j by (intro Suc.hyps(1)) simp_all
  then show ?case by (simp add: dr step)
qed

lemma same_length_frame_upto: "same_length (frame_upto es ls ts j)"
  by (simp add: frame_upto_def all_chans_def eeg_chans_def eog_chans_def)

lemma getDF_all_chans:
  assumes "length ts = length ls" "length es = length ls" "\<forall>e \<in> set es. length e = 6"
  shows "getDF es ls ts all_chans = Inr (frame_upto es ls ts (length ls))"
  using getDF_loop[of ts "length ls" es ls 0] assms
  by (simp add: getDF_def frame_upto_def[of _ _ _ 0] DataFrame_def same_length_frame_upto)

lemma epoch_loop_ok:
  "i + length evs \<le> length (start_df eeg) \<Longrightarrow>
   for_loop (epoch_step eeg d) (enumerate i evs) (es, ts, ls) =
     Inr (es @ map (epoch_at eeg d) [i..<i + length evs],
          ts @ map (window_at eeg d) [i..<i + length evs], ls @ evs)"
proof (induction evs arbitrary: i es ts ls)
  case Nil
  then show ?case by simp
next
  case (Cons ev evs)
  have step: "epoch_step eeg d (i, ev) (es, ts, ls) =
      Inr (es @ [epoch_at eeg d i], ts @ [window_at eeg d i], ls @ [ev])"
    using Cons.prems
    by (simp add: epoch_step_def py_nth_def epoch_at_def window_at_def window_samples_def sub_df_def Let_def)
  have IH: "for_loop (epoch_step eeg d) (enumerate (Suc i) evs) (es @ [epoch_at eeg d i], ts @ [window_at eeg d i], ls @ [ev]) =
     Inr ((es @ [epoch_at eeg d i]) @ map (epoch_at eeg d) [Suc i..<Suc i + length evs],
          (ts @ [window_at eeg d i]) @ map (window_at eeg d) [Suc i..<Suc i + length evs], (ls @ [ev]) @ evs)"
    using Cons.prems by (intro Cons.IH) simp
  have upt: "[i..<i + length (ev # evs)] = i # [Suc i..<Suc i + length evs]"
    by (subst upt_rec) simp
  show ?case unfolding upt by (simp add: step IH del: upt_Suc)
qed

lemma epoch_loop_fail:
  "i \<le> length (start_df eeg) \<Longrightarrow> length (start_df eeg) < i + length evs \<Longrightarrow>
   for_loop (epoch_step eeg d) (enumerate i evs) acc = Inl IndexError"
proof (induction evs arbitrary: i acc)
  case Nil
  then show ?case by simp
next
  case (Cons ev evs)
  obtain es ts ls where acc: "acc = (es, ts, ls)" by (cases acc) auto
  show ?case
  proof (cases "i < length (start_df eeg)")
    case True
    then have "Suc i \<le> length (start_df eeg)" "length (start_df eeg) < Suc i + length evs"
      using Cons.prems by simp_all
    from Cons.IH[OF this] True show ?thesis
      by (simp add: acc epoch_step_def py_nth_def Let_def)
  next
    case False
    then show ?thesis by (simp add: acc epoch_step_def py_nth_def)
  qed
qed

lemma getEpochedDF_eq:
  "getEpochedDF eeg evs d =
     (if length evs \<le> length (start_df eeg) then Inr (epoch_frame eeg evs d) else Inl IndexError)"
proof (cases "length evs \<le> length (start_df eeg)")
  case True
  let ?es = "map (epoch_at eeg d) [0..<length evs]"
  let ?ts = "map (window_at eeg d) [0..<length evs]"
  have loop: "for_loop (epoch_step eeg d) (enumerate 0 evs) ([], [], []) = Inr (?es, ?ts, evs)"
    using epoch_loop_ok[of 0 evs eeg d "[]" "[]" "[]"] True by simp
  have df: "getDF ?es evs ?ts all_chans = Inr (frame_upto ?es evs ?ts (length evs))"
    by (intro getDF_all_chans) (auto simp: epoch_at_def all_chans_def eeg_chans_def eog_chans_def)
  have "frame_upto ?es evs ?ts (length evs) = epoch_frame eeg evs d"
    by (auto simp: frame_upto_def epoch_frame_def epoch_at_def window_at_def map_nth
        all_chans_def eeg_chans_def eog_chans_def intro!: nth_equalityI)
  then show ?thesis using True by (simp add: getEpochedDF_def loop df)
next
  case False
  then show ?thesis
    using epoch_loop_fail[where i = 0 and eeg = eeg and evs = evs and d = d and acc = "([], [], [])"] by (simp add: getEpochedDF_def)
qed





lemma int_mult_le_iff_le_div:
  fixes a p d :: int
  assumes "0 < p"
  shows "a * p \<le> d \<longleftrightarrow> a \<le> d div p"
proof
  assume "a * p \<le> d"
  then have "(a * p) div p \<le> d div p" using assms by (rule zdiv_mono1)
  then show "a \<le> d div p" using assms by simp
next
  assume "a \<le> d div p"
  then have "a * p \<le> (d div p) * p" using assms by (simp add: mult_right_mono)
  also have "\<dots> \<le> d" using assms
    by (metis add_increasing2 div_mult_mod_eq order_refl pos_mod_sign)
  finally show "a * p \<le> d" .
qed

lemma nrows_epoch_frame: "nrows (epoch_frame eeg evs d) = length evs"
  by (simp add: epoch_frame_def)

lemma labels_epoch_frame: "frame_col (epoch_frame eeg evs d) ''event_type'' = map Label evs"
  by (simp add: epoch_frame_def frame_col_def)

lemma start_time_epoch_frame:
  "i < length evs \<Longrightarrow>
   frame_col (epoch_frame eeg evs d) ''start_time'' ! i = StartTime (time (start_df eeg ! i))"
proof -
  assume i: "i < length evs"
  then have "evs \<noteq> []" by auto
  then have "frame_col (epoch_frame eeg evs d) ''start_time''
      = map (\<lambda>i. StartTime (time (start_df eeg ! i))) [0..<length evs]"
    by (simp add: epoch_frame_def frame_col_def)
  then show ?thesis using i by simp
qed

lemma map_of_tabulate:
  "map_of (map (\<lambda>c. (c, f c)) cs) c = (if c \<in> set cs then Some (f c) else None)"
  by (induction cs) auto

lemma all_chans_not_meta:
  "ch \<in> set all_chans \<Longrightarrow> ch \<noteq> ''start_time'' \<and> ch \<noteq> ''event_type''"
  by (auto simp: all_chans_def eeg_chans_def eog_chans_def)

lemma chan_epoch_frame:
  assumes i: "i < length evs" and ch: "ch \<in> set all_chans"
  shows "frame_col (epoch_frame eeg evs d) ch ! i = Samples (window_samples eeg d i ch)"
proof -
  have ne: "evs \<noteq> []" using i by auto
  have "frame_col (epoch_frame eeg evs d) ch
      = map (\<lambda>i. Samples (window_samples eeg d i ch)) [0..<length evs]"
    using all_chans_not_meta[OF ch] ch ne
    by (simp add: epoch_frame_def frame_col_def map_of_tabulate)
  then show ?thesis using i by simp
qed

lemma upt_window_count:
  "j < N \<Longrightarrow> length (filter (\<lambda>k. j < k \<and> k \<le> j + m) [0..<N]) = min m (N - 1 - j)"
proof -
  assume j: "j < N"
  have "length (filter (\<lambda>k. j < k \<and> k \<le> j + m) [0..<N])
        = card (set (filter (\<lambda>k. j < k \<and> k \<le> j + m) [0..<N]))"
    by (rule distinct_card[symmetric]) simp
  also have "set (filter (\<lambda>k. j < k \<and> k \<le> j + m) [0..<N]) = {Suc j..<min (Suc (j + m)) N}"
    by auto
  also have "card \<dots> = min m (N - 1 - j)" using j by auto
  finally show ?thesis .
qed

lemma grid_window_count:
  assumes p: "0 < p" and grid: "map time eeg = map (\<lambda>k. t0 + int k * p) [0..<length eeg]"
    and j: "j < length eeg" and d: "0 \<le> d"
  shows "length (filter (\<lambda>r. time (eeg ! j) < time r \<and> time r \<le> time (eeg ! j) + d) eeg)
         = min (nat (d div p)) (length eeg - 1 - j)"
proof -
  let ?N = "length eeg"
  let ?s = "time (eeg ! j)"
  have tj: "?s = t0 + int j * p"
    using j nth_map[of j eeg time] grid by simp
  have "length (filter (\<lambda>r. ?s < time r \<and> time r \<le> ?s + d) eeg)
        = length (filter (\<lambda>t. ?s < t \<and> t \<le> ?s + d) (map time eeg))"
    by (simp add: filter_map o_def)
  also have "\<dots> = length (filter (\<lambda>k. ?s < t0 + int k * p \<and> t0 + int k * p \<le> ?s + d) [0..<?N])"
    by (subst grid) (simp add: filter_map o_def)
  also have "(\<lambda>k. ?s < t0 + int k * p \<and> t0 + int k * p \<le> ?s + d)
             = (\<lambda>k. j < k \<and> k \<le> j + nat (d div p))"
  proof (rule ext)
    fix k :: nat
    have a: "?s < t0 + int k * p \<longleftrightarrow> j < k"
      using p by (simp add: tj)
    have "t0 + int k * p \<le> ?s + d \<longleftrightarrow> (int k - int j) * p \<le> d"
      by (simp add: tj algebra_simps)
    also have "\<dots> \<longleftrightarrow> int k - int j \<le> d div p"
      using p by (rule int_mult_le_iff_le_div)
    also have "\<dots> \<longleftrightarrow> k \<le> j + nat (d div p)"
    proof -
      have "0 \<le> d div p" using d p by (simp add: pos_imp_zdiv_nonneg_iff)
      then show ?thesis by linarith
    qed
    finally show "(?s < t0 + int k * p \<and> t0 + int k * p \<le> ?s + d) = (j < k \<and> k \<le> j + nat (d div p))"
      using a by simp
  qed
  also have "length (filter (\<lambda>k. j < k \<and> k \<le> j + nat (d div p)) [0..<?N]) = min (nat (d div p)) (?N - 1 - j)"
    using j by (rule upt_window_count)
  finally show ?thesis .
qed

lemma start_row_index:
  assumes "i < length (start_df eeg)"
  shows "\<exists>j < length eeg. eeg ! j = start_df eeg ! i"
proof -
  have "start_df eeg ! i \<in> set (start_df eeg)" using assms by simp
  then have "start_df eeg ! i \<in> set eeg" by (simp add: start_df_def)
  then show ?thesis by (simp add: in_set_conv_nth)
qed

lemma grid_time_nth:
  assumes "map time eeg = map (\<lambda>k. t0 + int k * p) [0..<length eeg]" and "j < length eeg"
  shows "time (eeg ! j) = t0 + int j * p"
  using assms nth_map[of j eeg time] by simp

lemma grid_time_last:
  assumes "map time eeg = map (\<lambda>k. t0 + int k * p) [0..<length eeg]" and "eeg \<noteq> []"
  shows "time (last eeg) = t0 + int (length eeg - 1) * p"
  using grid_time_nth[OF assms(1), of "length eeg - 1"] assms(2)
  by (simp add: last_conv_nth)

lemma sampled_at_period:
  assumes "sampled_at fs t0 eeg"
  shows "0 < 1000 div fs" and "(1000 div fs) * fs = 1000"
    and "map time eeg = map (\<lambda>k. t0 + int k * (1000 div fs)) [0..<length eeg]"
proof -
  have fs: "0 < fs" "fs dvd 1000" using assms by (simp_all add: sampled_at_def)
  show "(1000 div fs) * fs = 1000" using fs by simp
  then show "0 < 1000 div fs" using fs
    by (metis zero_less_mult_pos2 zero_less_numeral)
  show "map time eeg = map (\<lambda>k. t0 + int k * (1000 div fs)) [0..<length eeg]"
    using assms by (simp add: sampled_at_def)
qed

lemma synthetic_times:
  "map time (map synthetic_row [0..<n]) = map (\<lambda>k. 0 + int k * 4) [0..<n]"
  by (simp add: synthetic_row_def)

lemma synthetic_sampled: "sampled_at 250 0 synthetic_eeg"
  using synthetic_times[of 2500] by (simp add: sampled_at_def synthetic_eeg_def del: upt_rec_numeral)

lemma synthetic_marks:
  assumes "1000 < n"
  shows "filter (\<lambda>k. k = 0 \<or> k = 1000) [0..<n] = [0, 1000]"
proof (rule sorted_distinct_set_unique)
  show "set (filter (\<lambda>k. k = 0 \<or> k = 1000) [0..<n]) = set [0, 1000]"
    using assms by auto
qed (simp_all add: sorted_wrt_filter)

lemma synthetic_starts: "start_df synthetic_eeg = [synthetic_row 0, synthetic_row 1000]"
proof -
  have "start_df synthetic_eeg = map synthetic_row (filter (\<lambda>k. k = 0 \<or> k = 1000) [0..<2500])"
    by (simp add: start_df_def synthetic_eeg_def filter_map o_def synthetic_row_def del: upt_rec_numeral)
  then show ?thesis by (simp only: synthetic_marks[of 2500, simplified] list.map)
qed

lemma synthetic_last: "time (last synthetic_eeg) = 9996"
  by (simp add: synthetic_eeg_def last_map synthetic_row_def del: upt_rec_numeral)

section \<open>The epoch extractor: the claims\<close>

text \<open>
  Claim C1, as the code has it. When the recording holds at least as many start markers
  as there are events, \<^verbatim>\<open>getEpochedDF\<close> returns a table with exactly one row per
  event whose \<^verbatim>\<open>event_type\<close> column is the events' labels in order. When there are
  more events than start markers, \<^verbatim>\<open>start_df.iloc[i]\<close> raises \<^verbatim>\<open>IndexError\<close> and
  no table is returned.
\<close>

theorem epochs_one_per_event:
  "(length event_df \<le> length (start_df eeg_df) \<longrightarrow>
      (\<exists>df. getEpochedDF eeg_df event_df d = Inr df \<and> nrows df = length event_df \<and>
            frame_col df ''event_type'' = map Label event_df)) \<and>
   (length (start_df eeg_df) < length event_df \<longrightarrow>
      getEpochedDF eeg_df event_df d = Inl IndexError)"
  by (simp add: getEpochedDF_eq nrows_epoch_frame labels_epoch_frame)

theorem epochs_one_per_event_witness:
  "length [''left'', ''right''] \<le> length (start_df tiny_eeg) \<and>
   (\<exists>df. getEpochedDF tiny_eeg [''left'', ''right''] 8 = Inr df \<and> nrows df = 2 \<and>
         frame_col df ''event_type'' = [Label ''left'', Label ''right''])"
  using epochs_one_per_event[of "[''left'', ''right'']" tiny_eeg 8]
  by (simp add: tiny_eeg_def start_df_def numeral_2_eq_2)

text \<open>
  Three events against a recording with two start markers: no epoch is produced.
\<close>

theorem epochs_more_events_than_starts:
  "getEpochedDF tiny_eeg [''left'', ''right'', ''left''] 8 = Inl IndexError"
  by (simp add: getEpochedDF_eq tiny_eeg_def start_df_def)

text \<open>
  Claim C2. In the returned table, row \<open>i\<close> holds the start time \<open>s\<close> of the \<open>i\<close>-th
  start marker and, for every channel, exactly the samples of the rows whose timestamp
  \<open>t\<close> satisfies \<open>s < t\<close> and \<open>t \<le> s + trial_duration_ms\<close>, in recording order.
\<close>

theorem epoch_window:
  assumes "getEpochedDF eeg_df event_df d = Inr df"
    and "i < length event_df" and "ch \<in> set all_chans"
    and "s = time (start_df eeg_df ! i)"
  shows "frame_col df ''start_time'' ! i = StartTime s \<and>
         frame_col df ch ! i =
           Samples (map (\<lambda>r. chan r ch) (filter (\<lambda>r. s < time r \<and> time r \<le> s + d) eeg_df))"
proof -
  have df: "df = epoch_frame eeg_df event_df d"
    using assms(1) by (simp add: getEpochedDF_eq split: if_splits)
  show ?thesis
    using assms(2-4)
    by (simp add: df start_time_epoch_frame chan_epoch_frame window_samples_def)
qed

theorem epoch_window_witness:
  "getEpochedDF tiny_eeg [''left'', ''right''] 8 = Inr (epoch_frame tiny_eeg [''left'', ''right''] 8) \<and>
   frame_col (epoch_frame tiny_eeg [''left'', ''right''] 8) ''start_time'' ! 1 = StartTime 8 \<and>
   frame_col (epoch_frame tiny_eeg [''left'', ''right''] 8) ''Cz'' ! 1 = Samples [13, 14] \<and>
   frame_col (epoch_frame tiny_eeg [''left'', ''right''] 8) ''Cz'' ! 0 = Samples [11, 12]"
proof -
  have run: "getEpochedDF tiny_eeg [''left'', ''right''] 8 = Inr (epoch_frame tiny_eeg [''left'', ''right''] 8)"
    by (simp add: getEpochedDF_eq tiny_eeg_def start_df_def)
  have cz: "''Cz'' \<in> set all_chans"
    by (simp add: all_chans_def eeg_chans_def)
  have s1: "(8::int) = time (start_df tiny_eeg ! 1)" and s0: "(0::int) = time (start_df tiny_eeg ! 0)"
    by (simp_all add: tiny_eeg_def start_df_def)
  show ?thesis
    using run epoch_window[OF run _ cz s1] epoch_window[OF run _ cz s0]
    by (simp add: tiny_eeg_def)
qed

text \<open>
  Claim C3. For a recording sampled at \<open>fs\<close> Hz and a trial duration \<open>d\<close> ms for which
  \<open>L = d \<times> fs / 1000\<close> is a whole number of samples, every epoch whose window ends
  within the recording has exactly \<open>L\<close> samples in every channel:
  \<open>length \<times> 1000 = d \<times> fs\<close>. The witness is the end-to-end scenario: ten seconds at
  250 Hz, events at 0 ms and 4000 ms, 4000 ms trials, two epochs of 1000 samples each.
\<close>

theorem epoch_length_nominal:
  assumes grid: "sampled_at fs t0 eeg_df"
    and run: "getEpochedDF eeg_df event_df d = Inr df"
    and i: "i < length event_df" and ch: "ch \<in> set all_chans"
    and d: "0 \<le> d" and whole: "1000 dvd d * fs"
    and inside: "time (start_df eeg_df ! i) + d \<le> time (last eeg_df)"
  shows "\<exists>xs. frame_col df ch ! i = Samples xs \<and> int (length xs) * 1000 = d * fs"
proof -
  let ?p = "1000 div fs"
  note per = sampled_at_period[OF grid]
  have df: "df = epoch_frame eeg_df event_df d" and starts: "length event_df \<le> length (start_df eeg_df)"
    using run by (simp_all add: getEpochedDF_eq split: if_splits)
  obtain j where j: "j < length eeg_df" "eeg_df ! j = start_df eeg_df ! i"
    using start_row_index[of i eeg_df] i starts by auto
  have ne: "eeg_df \<noteq> []" using j by auto
  have "t0 + int j * ?p + d \<le> t0 + int (length eeg_df - 1) * ?p"
    using inside grid_time_nth[OF per(3) j(1)] grid_time_last[OF per(3) ne] j(2) by simp
  then have "d \<le> (int (length eeg_df - 1) - int j) * ?p"
    by (simp add: algebra_simps)
  then have "d div ?p \<le> int (length eeg_df - 1) - int j"
    using per(1) by (metis zdiv_mono1 nonzero_mult_div_cancel_right less_irrefl)
  then have m: "nat (d div ?p) \<le> length eeg_df - 1 - j"
    using j(1) by linarith
  have cnt: "length (window_samples eeg_df d i ch) = nat (d div ?p)"
    unfolding window_samples_def j(2)[symmetric]
    using grid_window_count[OF per(1) per(3) j(1) d] m by simp
  have "?p * fs dvd d * fs" using whole per(2) by simp
  then have "?p dvd d" using grid by (simp add: sampled_at_def)
  then have "(d div ?p) * ?p = d" by simp
  then have "(d div ?p) * 1000 = d * fs"
    using per(2) by (metis mult.assoc)
  moreover have "0 \<le> d div ?p" using d per(1) by (simp add: pos_imp_zdiv_nonneg_iff)
  ultimately have "int (length (window_samples eeg_df d i ch)) * 1000 = d * fs"
    by (simp add: cnt)
  then show ?thesis
    using chan_epoch_frame[OF i ch, of eeg_df d] by (simp add: df)
qed

theorem epoch_length_nominal_witness:
  "sampled_at 250 0 synthetic_eeg \<and>
   (\<exists>df. getEpochedDF synthetic_eeg [''left'', ''right''] 4000 = Inr df \<and>
      nrows df = 2 \<and> frame_col df ''event_type'' = [Label ''left'', Label ''right''] \<and>
      (\<exists>xs ys. frame_col df ''C3'' ! 0 = Samples xs \<and> length xs = 1000 \<and>
               frame_col df ''C3'' ! 1 = Samples ys \<and> length ys = 1000) \<and>
      (\<exists>xs ys. frame_col df ''C4'' ! 0 = Samples xs \<and> length xs = 1000 \<and>
               frame_col df ''C4'' ! 1 = Samples ys \<and> length ys = 1000))"
proof -
  let ?evs = "[''left'', ''right'']"
  let ?df = "epoch_frame synthetic_eeg ?evs 4000"
  have run: "getEpochedDF synthetic_eeg ?evs 4000 = Inr ?df"
    by (simp add: getEpochedDF_eq synthetic_starts)
  have c3: "''C3'' \<in> set all_chans" and c4: "''C4'' \<in> set all_chans"
    by (simp_all add: all_chans_def eeg_chans_def)
  have in0: "time (start_df synthetic_eeg ! 0) + 4000 \<le> time (last synthetic_eeg)"
    and in1: "time (start_df synthetic_eeg ! 1) + 4000 \<le> time (last synthetic_eeg)"
    by (simp_all add: synthetic_starts synthetic_last synthetic_row_def)
  have i0: "0 < length ?evs" and i1: "1 < length ?evs" by simp_all
  have d: "(0::int) \<le> 4000" and w: "(1000::int) dvd 4000 * 250" by simp_all
  note len = epoch_length_nominal[OF synthetic_sampled run _ _ d w]
  from len[OF i0 c3 in0] len[OF i1 c3 in1] len[OF i0 c4 in0] len[OF i1 c4 in1]
  have "(\<exists>xs ys. frame_col ?df ''C3'' ! 0 = Samples xs \<and> length xs = 1000 \<and>
               frame_col ?df ''C3'' ! 1 = Samples ys \<and> length ys = 1000) \<and>
      (\<exists>xs ys. frame_col ?df ''C4'' ! 0 = Samples xs \<and> length xs = 1000 \<and>
               frame_col ?df ''C4'' ! 1 = Samples ys \<and> length ys = 1000)"
    by auto
  then show ?thesis
    using run synthetic_sampled by (simp add: nrows_epoch_frame labels_epoch_frame)
qed

text \<open>
  Claim C6. When the window of the \<open>i\<close>-th event ends after the last row of the
  recording, \<^verbatim>\<open>getEpochedDF\<close> still returns the table with one row per event, and
  the channel slices of row \<open>i\<close> are shorter than the nominal length:
  \<open>length \<times> 1000 < d \<times> fs\<close>. Nothing is raised and nothing is padded.
\<close>

theorem epoch_truncated:
  assumes grid: "sampled_at fs t0 eeg_df"
    and starts: "length event_df \<le> length (start_df eeg_df)"
    and i: "i < length event_df" and ch: "ch \<in> set all_chans"
    and beyond: "time (last eeg_df) < time (start_df eeg_df ! i) + d"
  shows "\<exists>df xs. getEpochedDF eeg_df event_df d = Inr df \<and> nrows df = length event_df \<and>
           frame_col df ch ! i = Samples xs \<and> int (length xs) * 1000 < d * fs"
proof -
  let ?p = "1000 div fs"
  let ?N = "length eeg_df"
  note per = sampled_at_period[OF grid]
  obtain j where j: "j < ?N" "eeg_df ! j = start_df eeg_df ! i"
    using start_row_index[of i eeg_df] i starts by auto
  have ne: "eeg_df \<noteq> []" using j by auto
  have lt: "t0 + int (?N - 1) * ?p < t0 + int j * ?p + d"
    using beyond grid_time_nth[OF per(3) j(1)] grid_time_last[OF per(3) ne] j(2) by simp
  have "int j * ?p \<le> int (?N - 1) * ?p"
    using j(1) per(1) by (intro mult_right_mono) simp_all
  then have d: "0 \<le> d" using lt by linarith
  have gap: "int (?N - 1 - j) * ?p < d"
  proof -
    have "int (?N - 1 - j) = int (?N - 1) - int j" using j(1) by simp
    then have "int (?N - 1 - j) * ?p = int (?N - 1) * ?p - int j * ?p"
      by (simp only: left_diff_distrib)
    then show ?thesis using lt by linarith
  qed
  have "length (window_samples eeg_df d i ch) \<le> ?N - 1 - j"
    unfolding window_samples_def j(2)[symmetric]
    using grid_window_count[OF per(1) per(3) j(1) d] by simp
  then have "int (length (window_samples eeg_df d i ch)) * ?p \<le> int (?N - 1 - j) * ?p"
    using per(1) by (intro mult_right_mono) simp_all
  then have "int (length (window_samples eeg_df d i ch)) * ?p < d" using gap by linarith
  moreover have "0 < fs" using grid by (simp add: sampled_at_def)
  ultimately have "int (length (window_samples eeg_df d i ch)) * ?p * fs < d * fs"
    by (simp add: mult_strict_right_mono)
  then have "int (length (window_samples eeg_df d i ch)) * 1000 < d * fs"
    using per(2) by (simp add: mult.assoc)
  then show ?thesis
    using starts chan_epoch_frame[OF i ch, of eeg_df d]
    by (simp add: getEpochedDF_eq nrows_epoch_frame)
qed

theorem epoch_truncated_witness:
  "sampled_at 250 0 tiny_eeg \<and> time (last tiny_eeg) < time (start_df tiny_eeg ! 1) + 12 \<and>
   (\<exists>df. getEpochedDF tiny_eeg [''left'', ''right''] 12 = Inr df \<and> nrows df = 2 \<and>
      frame_col df ''C3'' ! 1 = Samples [13, 14] \<and> int (length [13, 14 :: real]) * 1000 < 12 * 250)"
proof -
  let ?evs = "[''left'', ''right'']"
  have grid: "sampled_at 250 0 tiny_eeg"
    by (simp add: sampled_at_def tiny_eeg_def upt_rec)
  have starts: "length ?evs \<le> length (start_df tiny_eeg)"
    by (simp add: tiny_eeg_def start_df_def)
  have c3: "''C3'' \<in> set all_chans" by (simp add: all_chans_def eeg_chans_def)
  have beyond: "time (last tiny_eeg) < time (start_df tiny_eeg ! 1) + 12"
    by (simp add: tiny_eeg_def start_df_def)
  have i1: "1 < length ?evs" by simp
  have "frame_col (epoch_frame tiny_eeg ?evs 12) ''C3'' ! 1 = Samples [13, 14]"
    using chan_epoch_frame[OF i1 c3, of tiny_eeg 12]
    by (simp add: window_samples_def tiny_eeg_def start_df_def)
  then show ?thesis
    using epoch_truncated[OF grid starts i1 c3 beyond] grid beyond
    by (auto simp: getEpochedDF_eq split: if_splits)
qed

section \<open>Feature notebook: properties\<close>

subsection \<open>Loops\<close>

lemma for_loop_total:
  "(\<And>x s. x \<in> set xs \<Longrightarrow> body x s = Inr (g x s)) \<Longrightarrow> for_loop body xs s = Inr (fold g xs s)"
  by (induction xs arbitrary: s) simp_all

lemma for_loop_append:
  "for_loop body (xs @ ys) s =
     (case for_loop body xs s of Inl e \<Rightarrow> Inl e | Inr s' \<Rightarrow> for_loop body ys s')"
  by (induction xs arbitrary: s) (simp_all split: sum.splits)

lemma for_loop_Inr_all:
  "for_loop body xs s = Inr s' \<Longrightarrow> x \<in> set xs \<Longrightarrow> \<exists>t t'. body x t = Inr t'"
  by (induction xs arbitrary: s) (auto split: sum.splits)

subsection \<open>Dictionaries of lists\<close>

lemma dict_extend_Nil [simp]: "dict_extend d [] = d"
  by (simp add: dict_extend_def)

lemma dict_extend_Cons [simp]: "dict_extend d ((k, v) # kvs) = dict_extend (dict_append k v d) kvs"
  by (simp add: dict_extend_def)

lemma dict_extend_append: "dict_extend d (xs @ ys) = dict_extend (dict_extend d xs) ys"
  by (simp add: dict_extend_def)

lemma fold_dict_extend:
  "fold (\<lambda>x d. dict_extend d (f x)) xs d = dict_extend d (concat (map f xs))"
  by (induction xs arbitrary: d) (simp_all add: dict_extend_append)

lemma keys_dict_append: "fst ` set (dict_append k v d) = insert k (fst ` set d)"
  by (induction k v d rule: dict_append.induct) auto

lemma frame_col_dict_append:
  "frame_col (dict_append k v d) k' = (if k' = k then frame_col d k @ [v] else frame_col d k')"
  by (induction k v d rule: dict_append.induct) (auto simp: frame_col_def)

lemma map_fst_dict_append:
  "map fst (dict_append k v d) = (if k \<in> fst ` set d then map fst d else map fst d @ [k])"
  by (induction k v d rule: dict_append.induct) (auto simp: rev_image_eqI)

lemma distinct_dict_append:
  "distinct (map fst d) \<Longrightarrow> distinct (map fst (dict_append k v d))"
  by (simp add: map_fst_dict_append)

lemma keys_dict_extend: "fst ` set (dict_extend d kvs) = fst ` set d \<union> fst ` set kvs"
proof (induction kvs arbitrary: d)
  case Nil
  then show ?case by simp
next
  case (Cons kv kvs)
  obtain k v where kv: "kv = (k, v)" by (cases kv)
  show ?case unfolding kv dict_extend_Cons Cons.IH keys_dict_append by auto
qed

lemma frame_col_dict_extend:
  "frame_col (dict_extend d kvs) k = frame_col d k @ map snd (filter (\<lambda>kv. fst kv = k) kvs)"
proof (induction kvs arbitrary: d)
  case Nil
  then show ?case by simp
next
  case (Cons kv kvs)
  obtain k' v where kv: "kv = (k', v)" by (cases kv)
  show ?case unfolding kv dict_extend_Cons Cons.IH by (simp add: frame_col_dict_append)
qed

lemma distinct_dict_extend:
  "distinct (map fst d) \<Longrightarrow> distinct (map fst (dict_extend d kvs))"
proof (induction kvs arbitrary: d)
  case Nil
  then show ?case by simp
next
  case (Cons kv kvs)
  obtain k v where kv: "kv = (k, v)" by (cases kv)
  show ?case unfolding kv dict_extend_Cons
    by (rule Cons.IH) (rule distinct_dict_append[OF Cons.prems])
qed

lemma map_fst_dict_extend_old:
  "fst ` set kvs \<subseteq> fst ` set d \<Longrightarrow> map fst (dict_extend d kvs) = map fst d"
proof (induction kvs arbitrary: d)
  case Nil
  then show ?case by simp
next
  case (Cons kv kvs)
  obtain k v where kv: "kv = (k, v)" by (cases kv)
  have k: "k \<in> fst ` set d" using Cons.prems by (simp add: kv)
  have "fst ` set kvs \<subseteq> fst ` set (dict_append k v d)"
    using Cons.prems by (auto simp: keys_dict_append)
  then have "map fst (dict_extend (dict_append k v d) kvs) = map fst (dict_append k v d)"
    by (rule Cons.IH)
  then show ?case using k by (simp add: kv map_fst_dict_append)
qed

lemma map_fst_dict_extend_new:
  "distinct (map fst kvs) \<Longrightarrow> fst ` set kvs \<inter> fst ` set d = {} \<Longrightarrow>
   map fst (dict_extend d kvs) = map fst d @ map fst kvs"
proof (induction kvs arbitrary: d)
  case Nil
  then show ?case by simp
next
  case (Cons kv kvs)
  obtain k v where kv: "kv = (k, v)" by (cases kv)
  have "fst ` set kvs \<inter> fst ` set (dict_append k v d) = {}"
    using Cons.prems by (auto simp: kv keys_dict_append)
  moreover have "distinct (map fst kvs)" using Cons.prems by simp
  ultimately have "map fst (dict_extend (dict_append k v d) kvs) = map fst (dict_append k v d) @ map fst kvs"
    by (intro Cons.IH)
  moreover have "k \<notin> fst ` set d" using Cons.prems by (auto simp: kv)
  ultimately show ?case by (simp add: kv map_fst_dict_append)
qed

lemma frame_col_member:
  "distinct (map fst d) \<Longrightarrow> (k, col) \<in> set d \<Longrightarrow> frame_col d k = col"
  by (simp add: frame_col_def)

lemma same_length_iff:
  "same_length d \<longleftrightarrow> (\<forall>c \<in> set d. \<forall>c' \<in> set d. length (snd c) = length (snd c'))"
  by (induction d rule: same_length.induct) auto

lemma same_length_cols:
  assumes "distinct (map fst d)" and "\<And>k. k \<in> fst ` set d \<Longrightarrow> length (frame_col d k) = n"
  shows "same_length d"
  unfolding same_length_iff
proof (intro ballI)
  fix c c' assume c: "c \<in> set d" "c' \<in> set d"
  have "frame_col d (fst c) = snd c" "frame_col d (fst c') = snd c'"
    using c assms(1) by (auto intro: frame_col_member)
  moreover have "length (frame_col d (fst c)) = n" "length (frame_col d (fst c')) = n"
    using c by (auto intro!: assms(2))
  ultimately show "length (snd c) = length (snd c')" by simp
qed

lemma frame_col_in_set:
  "k \<in> fst ` set d \<Longrightarrow> (k, frame_col d k) \<in> set d"
  by (auto simp: frame_col_def dest: map_of_SomeD split: option.splits simp: map_of_eq_None_iff)

lemma same_length_frame_col:
  assumes "same_length d" "k \<in> fst ` set d"
  shows "length (frame_col d k) = nrows d"
proof -
  obtain k0 c0 d' where d: "d = (k0, c0) # d'" using assms(2) by (cases d) auto
  have "(k, frame_col d k) \<in> set d" using assms(2) by (rule frame_col_in_set)
  moreover have "(k0, c0) \<in> set d" by (simp add: d)
  ultimately have "length (frame_col d k) = length c0"
    using assms(1) unfolding same_length_iff by fastforce
  then show ?thesis by (simp add: d)
qed

lemma filter_key_distinct:
  "distinct (map fst kvs) \<Longrightarrow> (k, v) \<in> set kvs \<Longrightarrow> filter (\<lambda>kv. fst kv = k) kvs = [(k, v)]"
  by (induction kvs) (auto simp: filter_empty_conv rev_image_eqI)

lemma filter_key_absent:
  "k \<notin> fst ` set kvs \<Longrightarrow> filter (\<lambda>kv. fst kv = k) kvs = []"
  by (auto simp: filter_empty_conv)

subsection \<open>Printing numbers is injective\<close>

declare str_nat.simps [simp del]

lemma str_nat_small: "n < 10 \<Longrightarrow> str_nat n = [digit_char (nat_digit n)]"
  by (subst str_nat.simps) simp

lemma str_nat_big:
  "\<not> n < 10 \<Longrightarrow> str_nat n = str_nat (n div 10) @ [digit_char (nat_digit (n mod 10))]"
  by (subst str_nat.simps) simp

lemma digit_char_inj: "digit_char a = digit_char b \<Longrightarrow> a = b"
  by (cases a; cases b) simp_all

lemma digit_char_plain:
  "digit_char a \<noteq> CHR ''-''" "digit_char a \<noteq> CHR ''.''" "digit_char a \<noteq> CHR '',''"
  by (cases a; simp)+

lemma nat_digit_inj: "a < 10 \<Longrightarrow> b < 10 \<Longrightarrow> nat_digit a = nat_digit b \<Longrightarrow> a = b"
proof -
  assume a: "a < 10" and b: "b < 10" and e: "nat_digit a = nat_digit b"
  have d: "distinct [D0, D1, D2, D3, D4, D5, D6, D7, D8, D9]" by simp
  show "a = b"
    using e a b nth_eq_iff_index_eq[OF d, of a b] by (simp add: nat_digit_def)
qed

lemma str_nat_digits: "set (str_nat n) \<subseteq> range digit_char"
proof (induction n rule: str_nat.induct)
  case (1 n)
  show ?case
  proof (cases "n < 10")
    case True
    then show ?thesis by (simp add: str_nat_small)
  next
    case False
    then show ?thesis using "1.IH" by (simp add: str_nat_big)
  qed
qed

lemma str_nat_length: "length (str_nat n) = 1 \<longleftrightarrow> n < 10"
proof (cases "n < 10")
  case True
  then show ?thesis by (simp add: str_nat_small)
next
  case False
  have "str_nat (n div 10) \<noteq> []" by (subst str_nat.simps) simp
  then have "length (str_nat (n div 10)) \<noteq> 0" by simp
  then show ?thesis using False by (simp add: str_nat_big)
qed

lemma str_nat_inj: "str_nat a = str_nat b \<Longrightarrow> a = b"
proof (induction a arbitrary: b rule: str_nat.induct)
  case (1 n)
  show ?case
  proof (cases "n < 10")
    case True
    then have "length (str_nat b) = 1" using "1.prems" str_nat_length[of n] by simp
    then have b: "b < 10" using str_nat_length[of b] by simp
    have "str_nat n = [digit_char (nat_digit n)]" "str_nat b = [digit_char (nat_digit b)]"
      using True b by (simp_all add: str_nat_small)
    then have "nat_digit n = nat_digit b" using "1.prems" by (simp add: digit_char_inj)
    then show ?thesis using True b by (rule nat_digit_inj[rotated 2])
  next
    case False
    then have "length (str_nat b) \<noteq> 1" using "1.prems" str_nat_length[of n] by simp
    then have b: "\<not> b < 10" using str_nat_length[of b] by simp
    have n': "str_nat n = str_nat (n div 10) @ [digit_char (nat_digit (n mod 10))]"
      using False by (rule str_nat_big)
    have b': "str_nat b = str_nat (b div 10) @ [digit_char (nat_digit (b mod 10))]"
      using b by (rule str_nat_big)
    have eq: "str_nat (n div 10) = str_nat (b div 10)"
      "digit_char (nat_digit (n mod 10)) = digit_char (nat_digit (b mod 10))"
      using "1.prems" unfolding n' b' by simp_all
    have "n div 10 = b div 10" using "1.IH"[OF False eq(1)] .
    moreover have "n mod 10 = b mod 10"
      using eq(2) by (intro nat_digit_inj) (simp_all add: digit_char_inj)
    ultimately show ?thesis by (metis div_mult_mod_eq)
  qed
qed

lemma str_nat_plain:
  "CHR ''-'' \<notin> set (str_nat n)" "CHR ''.'' \<notin> set (str_nat n)" "CHR '','' \<notin> set (str_nat n)"
proof -
  have "\<And>c. c \<in> set (str_nat n) \<Longrightarrow> \<exists>a. c = digit_char a"
    using str_nat_digits[of n] by blast
  then show "CHR ''-'' \<notin> set (str_nat n)" "CHR ''.'' \<notin> set (str_nat n)"
    "CHR '','' \<notin> set (str_nat n)"
    using digit_char_plain by metis+
qed

lemma str_nat_nonempty: "str_nat n \<noteq> []"
  by (subst str_nat.simps) simp

lemma str_nat_hd: "hd (str_nat n) \<noteq> CHR ''-''"
  using str_nat_plain(1)[of n] str_nat_nonempty[of n] by (cases "str_nat n") auto

lemma sign_str_nat_inj:
  assumes "(if s then ''-'' else []) @ str_nat a = (if t then ''-'' else []) @ str_nat b"
  shows "s = t \<and> a = b"
proof -
  have "s = t"
    using assms str_nat_hd[of a] str_nat_hd[of b] str_nat_nonempty[of a] str_nat_nonempty[of b]
    by (cases "str_nat a"; cases "str_nat b"; cases s; cases t) auto
  then show ?thesis using assms by (auto dest: str_nat_inj)
qed

lemma str_int_sign: "str_int i = (if i < 0 then ''-'' else []) @ str_nat (nat \<bar>i\<bar>)"
  by (simp add: str_int_def)

lemma str_int_inj: "str_int i = str_int j \<Longrightarrow> i = j"
proof -
  assume "str_int i = str_int j"
  then have "(i < 0) = (j < 0) \<and> nat \<bar>i\<bar> = nat \<bar>j\<bar>"
    unfolding str_int_sign by (rule sign_str_nat_inj)
  then show "i = j" by linarith
qed

lemma str_int_plain: "CHR ''.'' \<notin> set (str_int i)" "CHR '','' \<notin> set (str_int i)"
  using str_nat_plain by (auto simp: str_int_def)

lemma py_str_no_comma: "CHR '','' \<notin> set (py_str x)"
proof (cases x)
  case (PyInt i)
  then show ?thesis by (simp add: str_int_plain)
next
  case (PyFloat s a ds)
  have "CHR '','' \<notin> digit_char ` set ds"
    using digit_char_plain(3) by (metis imageE)
  then show ?thesis using str_nat_plain(3)[of a] by (simp add: PyFloat)
qed

lemma py_str_inj: "py_str x = py_str y \<Longrightarrow> x = y"
proof (cases x; cases y)
  fix i j assume "x = PyInt i" "y = PyInt j" "py_str x = py_str y"
  then show "x = y" by (simp add: str_int_inj)
next
  fix i t b ds assume "x = PyInt i" "y = PyFloat t b ds" "py_str x = py_str y"
  then have "CHR ''.'' \<in> set (str_int i)" by simp
  then show "x = y" using str_int_plain(1) by simp
next
  fix i s a ds assume "x = PyFloat s a ds" "y = PyInt i" "py_str x = py_str y"
  then have "CHR ''.'' \<in> set (str_int i)" by (metis in_set_conv_decomp py_str.simps append.assoc append_Cons)
  then show "x = y" using str_int_plain(1) by simp
next
  fix s a ds t b es
  assume x: "x = PyFloat s a ds" and y: "y = PyFloat t b es" and e: "py_str x = py_str y"
  let ?p = "(if s then ''-'' else []) @ str_nat a" and ?q = "(if t then ''-'' else []) @ str_nat b"
  have e1: "?p @ CHR ''.'' # map digit_char ds = ?q @ CHR ''.'' # map digit_char es"
    using e by (simp add: x y)
  have np: "CHR ''.'' \<notin> set ?p"
    using str_nat_plain(2) by auto
  have nd: "CHR ''.'' \<notin> set (map digit_char ds)"
    using digit_char_plain(2) by (metis imageE list.set_map)
  have "?p = ?q \<and> map digit_char ds = map digit_char es"
    using append_Cons_eq_iff[OF np nd, of ?q "map digit_char es"] e1 by blast
  then have pq: "?p = ?q" and de: "map digit_char ds = map digit_char es"
    by blast+
  have "ds = es"
    using de by (rule map_injective) (auto simp: inj_on_def dest: digit_char_inj)
  moreover have "s = t \<and> a = b" using pq by (rule sign_str_nat_inj)
  ultimately show "x = y" by (simp add: x y)
qed

lemma str_interval_inj: "str_interval x = str_interval y \<Longrightarrow> x = y"
proof -
  assume e: "str_interval x = str_interval y"
  have "py_str (fst x) @ CHR '','' # (CHR '' '' # py_str (snd x) @ '')'')
      = py_str (fst y) @ CHR '','' # (CHR '' '' # py_str (snd y) @ '')'')"
    using e by (simp add: str_interval_def)
  then have "py_str (fst x) = py_str (fst y)" "py_str (snd x) = py_str (snd y)"
    using py_str_no_comma by (simp_all add: append_Cons_eq_iff)
  then show "x = y" by (simp add: py_str_inj prod_eq_iff)
qed

lemma str_interval_theta: "str_interval (PyInt 4, PyInt 7) = ''(4, 7)''"
  by (simp add: str_interval_def str_int_def nat_digit_def str_nat_small)

lemma str_interval_beta: "str_interval (PyInt 12, PyInt 30) = ''(12, 30)''"
  by (simp add: str_interval_def str_int_def nat_digit_def str_nat_small str_nat_big)

lemma chan_key_inj:
  assumes "ch \<in> set eeg_chans" "ch' \<in> set eeg_chans"
    and "ch @ ''_'' @ str_interval x = ch' @ ''_'' @ str_interval y"
  shows "ch = ch' \<and> x = y"
proof -
  have "length ch = length ch'" using assms(1,2) by (auto simp: eeg_chans_def)
  then have "ch = ch'" "''_'' @ str_interval x = ''_'' @ str_interval y"
    using assms(3) by simp_all
  then show ?thesis by (simp add: str_interval_inj)
qed

lemma chan_key_not_y: "ch \<in> set eeg_chans \<Longrightarrow> ch @ ''_'' @ s \<noteq> ''y''"
  by (auto simp: eeg_chans_def)

subsection \<open>The intervals of a binning\<close>

lemma fold_snoc: "fold (\<lambda>x s. s @ [h x]) xs s = s @ map h xs"
  by (induction xs arbitrary: s) simp_all

lemma getIntervals_eq: "getIntervals binning = Inr (consecutive binning)"
proof -
  let ?body = "\<lambda>(i, val) intervals.
         case py_nth binning (i + 1) of
           Inl e \<Rightarrow> Inl e
         | Inr nxt \<Rightarrow> Inr (intervals @ [(val, nxt)])"
  let ?h = "\<lambda>x. (snd x, binning ! (fst x + 1))"
  have "for_loop ?body (enumerate 0 (butlast binning)) [] =
        Inr (fold (\<lambda>x s. s @ [?h x]) (enumerate 0 (butlast binning)) [])"
  proof (rule for_loop_total)
    fix x :: "nat \<times> pynum" and s
    assume "x \<in> set (enumerate 0 (butlast binning))"
    then have "fst x + 1 < length binning"
      by (auto simp: in_set_enumerate_eq)
    then show "?body x s = Inr (s @ [?h x])"
      by (cases x) (simp add: py_nth_def)
  qed
  also have "fold (\<lambda>x s. s @ [?h x]) (enumerate 0 (butlast binning)) [] = map ?h (enumerate 0 (butlast binning))"
    by (simp add: fold_snoc)
  also have "\<dots> = consecutive binning"
    unfolding consecutive_def
    by (rule nth_equalityI) (simp_all add: nth_enumerate_eq nth_tl nth_butlast)
  finally show ?thesis by (simp add: getIntervals_def)
qed

lemma length_consecutive: "length (consecutive binning) = length binning - 1"
  by (simp add: consecutive_def)

lemma nth_consecutive:
  "i < length binning - 1 \<Longrightarrow> consecutive binning ! i = (binning ! i, binning ! Suc i)"
  by (simp add: consecutive_def nth_butlast nth_tl)

lemma distinct_consecutive:
  assumes "sorted_wrt (\<lambda>a b. num_val a < num_val b) binning"
  shows "distinct (consecutive binning)"
proof -
  have "distinct binning"
    using assms by (induction binning) auto
  then have "distinct (butlast binning)" by (rule distinct_butlast)
  then show ?thesis unfolding consecutive_def by (rule distinct_zipI1)
qed

subsection \<open>One row of the power-bin loop\<close>

lemma fold_dict_append_map:
  "fold (\<lambda>x d. dict_append (fst (h x)) (snd (h x)) d) xs d = dict_extend d (map h xs)"
  by (induction xs arbitrary: d) (simp_all add: dict_extend_def case_prod_beta)

lemma interval_loop_ok:
  assumes "length intervals \<le> length ratios"
  shows "for_loop (\<lambda>(j, interval) d.
             case py_nth ratios j of
               Inl e \<Rightarrow> Inl e
             | Inr r \<Rightarrow> Inr (dict_append (ch @ ''_'' @ str_interval interval) (FloatCell (Fin r)) d))
           (enumerate 0 intervals) d
         = Inr (dict_extend d
             (map (\<lambda>(j, interval). (ch @ ''_'' @ str_interval interval, FloatCell (Fin (ratios ! j))))
                (enumerate 0 intervals)))"
proof -
  let ?h = "\<lambda>(j, interval). (ch @ ''_'' @ str_interval interval, FloatCell (Fin (ratios ! j)))"
  have "for_loop (\<lambda>(j, interval) d.
             case py_nth ratios j of
               Inl e \<Rightarrow> Inl e
             | Inr r \<Rightarrow> Inr (dict_append (ch @ ''_'' @ str_interval interval) (FloatCell (Fin r)) d))
           (enumerate 0 intervals) d
        = Inr (fold (\<lambda>x d. dict_append (fst (?h x)) (snd (?h x)) d) (enumerate 0 intervals) d)"
  proof (rule for_loop_total)
    fix x :: "nat \<times> pynum \<times> pynum" and s :: "num_cell dict"
    assume "x \<in> set (enumerate 0 intervals)"
    then have "fst x < length ratios"
      using assms by (auto simp: in_set_enumerate_eq)
    then show "(case x of (j, interval) \<Rightarrow> \<lambda>d.
             case py_nth ratios j of
               Inl e \<Rightarrow> Inl e
             | Inr r \<Rightarrow> Inr (dict_append (ch @ ''_'' @ str_interval interval) (FloatCell (Fin r)) d)) s
          = Inr (dict_append (fst (?h x)) (snd (?h x)) s)"
      by (cases x) (simp add: py_nth_def)
  qed
  then show ?thesis by (simp only: fold_dict_append_map)
qed

lemma interval_loop_fail:
  "i \<le> length ratios \<Longrightarrow> length ratios < i + length intervals \<Longrightarrow>
   for_loop (\<lambda>(j, interval) d.
             case py_nth ratios j of
               Inl e \<Rightarrow> Inl e
             | Inr r \<Rightarrow> Inr (dict_append (ch @ ''_'' @ str_interval interval) (FloatCell (Fin r)) d))
           (enumerate i intervals) d = Inl IndexError"
proof (induction intervals arbitrary: i d)
  case Nil
  then show ?case by simp
next
  case (Cons iv ivs)
  show ?case
  proof (cases "i < length ratios")
    case True
    then have "Suc i \<le> length ratios" "length ratios < Suc i + length ivs"
      using Cons.prems by simp_all
    from Cons.IH[OF this] True show ?thesis by (simp add: py_nth_def)
  next
    case False
    then show ?thesis by (simp add: py_nth_def)
  qed
qed

lemma power_ratios_row_chan_step:
  "power_ratios_row bp binning intervals row d =
     (case for_loop (chan_step bp binning intervals row) eeg_chans d of
        Inl e \<Rightarrow> Inl e
      | Inr d' \<Rightarrow> Inr (dict_append ''y'' (IntCell (event_type row)) d'))"
  by (simp add: power_ratios_row_def chan_step_def)

lemma bin_power_ok_iff:
  "bin_power_ok bp binning n row \<longleftrightarrow> (\<forall>ch \<in> set eeg_chans. chan_ok bp binning n row ch)"
  by (simp add: bin_power_ok_def chan_ok_def list_all_iff)

lemma chan_step_ok:
  assumes "chan_ok bp binning (length intervals) row ch"
  shows "chan_step bp binning intervals row ch d = Inr (dict_extend d (chan_cells bp binning intervals row ch))"
proof -
  obtain p r where b: "bp (samples row ch) binning 250 = Inr (p, r)" and len: "length intervals \<le> length r"
    using assms by (auto simp: chan_ok_def split: sum.splits)
  have r: "ratios_of bp binning row ch = r" by (simp add: ratios_of_def b)
  show ?thesis
    unfolding chan_step_def chan_cells_def r
    by (simp add: getPowerRatio_def b interval_loop_ok[OF len])
qed

lemma chan_step_fail:
  assumes "\<not> chan_ok bp binning (length intervals) row ch"
  shows "\<exists>e. chan_step bp binning intervals row ch d = Inl e"
proof (cases "bp (samples row ch) binning 250")
  case (Inl e)
  then show ?thesis by (simp add: chan_step_def getPowerRatio_def)
next
  case (Inr pr)
  obtain p r where pr: "pr = (p, r)" by (cases pr)
  have "length r < 0 + length intervals"
    using assms by (simp add: chan_ok_def Inr pr)
  then show ?thesis
    using interval_loop_fail[of 0 r intervals ch d]
    by (simp add: chan_step_def getPowerRatio_def Inr pr)
qed

lemma power_ratios_row_ok:
  assumes "bin_power_ok bp binning (length intervals) row"
  shows "power_ratios_row bp binning intervals row d =
           Inr (dict_extend d (row_appends bp binning intervals row))"
proof -
  have "for_loop (chan_step bp binning intervals row) eeg_chans d
        = Inr (fold (\<lambda>ch d. dict_extend d (chan_cells bp binning intervals row ch)) eeg_chans d)"
    using assms by (intro for_loop_total chan_step_ok) (simp add: bin_power_ok_iff)
  then show ?thesis
    by (simp add: power_ratios_row_chan_step fold_dict_extend row_appends_def dict_extend_append)
qed

lemma power_ratios_row_fail:
  assumes "\<not> bin_power_ok bp binning (length intervals) row"
  shows "\<exists>e. power_ratios_row bp binning intervals row d = Inl e"
proof -
  obtain ch where ch: "ch \<in> set eeg_chans" "\<not> chan_ok bp binning (length intervals) row ch"
    using assms by (auto simp: bin_power_ok_iff)
  have "\<exists>e. for_loop (chan_step bp binning intervals row) eeg_chans d = Inl e"
  proof (rule ccontr)
    assume "\<not> ?thesis"
    then obtain d' where "for_loop (chan_step bp binning intervals row) eeg_chans d = Inr d'"
      by (cases "for_loop (chan_step bp binning intervals row) eeg_chans d") auto
    then obtain t t' where "chan_step bp binning intervals row ch t = Inr t'"
      using for_loop_Inr_all ch(1) by fastforce
    then show False using chan_step_fail[OF ch(2), of t] by simp
  qed
  then show ?thesis by (auto simp: power_ratios_row_chan_step)
qed

subsection \<open>The whole power-bin table\<close>

lemma power_ratios_loop_ok:
  assumes "list_all (bin_power_ok bp binning (length intervals)) epochs"
  shows "for_loop (power_ratios_row bp binning intervals) epochs d =
           Inr (dict_extend d (concat (map (row_appends bp binning intervals) epochs)))"
proof -
  have "for_loop (power_ratios_row bp binning intervals) epochs d
       = Inr (fold (\<lambda>row d. dict_extend d (row_appends bp binning intervals row)) epochs d)"
    using assms by (intro for_loop_total power_ratios_row_ok) (simp add: list_all_iff)
  then show ?thesis by (simp add: fold_dict_extend)
qed

lemma power_ratios_loop_fail:
  assumes "\<not> list_all (bin_power_ok bp binning (length intervals)) epochs"
  shows "\<exists>e. for_loop (power_ratios_row bp binning intervals) epochs d = Inl e"
proof (rule ccontr)
  assume "\<not> ?thesis"
  then obtain d' where ok: "for_loop (power_ratios_row bp binning intervals) epochs d = Inr d'"
    by (cases "for_loop (power_ratios_row bp binning intervals) epochs d") auto
  obtain row where row: "row \<in> set epochs" "\<not> bin_power_ok bp binning (length intervals) row"
    using assms by (auto simp: list_all_iff)
  obtain t t' where "power_ratios_row bp binning intervals row t = Inr t'"
    using for_loop_Inr_all[OF ok row(1)] by auto
  then show False using power_ratios_row_fail[OF row(2), of t] by simp
qed

lemma power_ratios_df_ok:
  assumes "list_all (bin_power_ok bp binning (length binning - 1)) epochs"
  shows "power_ratios_df bp epochs binning = DataFrame (power_ratios_dict bp epochs binning)"
  using power_ratios_loop_ok[of bp binning "consecutive binning" epochs "[(''y'', [])]"] assms
  by (simp add: power_ratios_df_def getIntervals_eq length_consecutive power_ratios_dict_def)

lemma power_ratios_df_Inr:
  assumes "power_ratios_df bp epochs binning = Inr P"
  shows "list_all (bin_power_ok bp binning (length binning - 1)) epochs"
    and "P = power_ratios_dict bp epochs binning" and "same_length P"
proof -
  show ok: "list_all (bin_power_ok bp binning (length binning - 1)) epochs"
  proof (rule ccontr)
    assume "\<not> ?thesis"
    then obtain e where "for_loop (power_ratios_row bp binning (consecutive binning)) epochs [(''y'', [])] = Inl e"
      using power_ratios_loop_fail[of bp binning "consecutive binning" epochs "[(''y'', [])]"]
      by (auto simp: length_consecutive)
    then show False using assms by (simp add: power_ratios_df_def getIntervals_eq)
  qed
  show "P = power_ratios_dict bp epochs binning" "same_length P"
    using assms power_ratios_df_ok[OF ok] by (auto simp: DataFrame_def split: if_splits)
qed

subsection \<open>The columns of the power-bin table\<close>

lemma map_fst_chan_cells:
  "map fst (chan_cells bp binning intervals row ch) = map (\<lambda>interval. ch @ ''_'' @ str_interval interval) intervals"
proof -
  have "map fst (chan_cells bp binning intervals row ch)
      = map ((\<lambda>interval. ch @ ''_'' @ str_interval interval) \<circ> snd) (enumerate 0 intervals)"
    by (simp add: chan_cells_def case_prod_beta o_def)
  also have "\<dots> = map (\<lambda>interval. ch @ ''_'' @ str_interval interval) (map snd (enumerate 0 intervals))"
    by (simp only: map_map)
  also have "\<dots> = map (\<lambda>interval. ch @ ''_'' @ str_interval interval) intervals"
    by (simp only: map_snd_enumerate)
  finally show ?thesis .
qed

lemma map_fst_all_cells:
  "map fst (concat (map (chan_cells bp binning intervals row) eeg_chans)) = ratio_keys intervals"
  by (simp add: ratio_keys_def map_concat o_def map_fst_chan_cells)

lemma map_fst_row_appends:
  "map fst (row_appends bp binning intervals row) = ratio_keys intervals @ [''y'']"
  by (simp add: row_appends_def map_fst_all_cells)

lemma set_ratio_keys:
  "set (ratio_keys intervals) =
     {ch @ ''_'' @ str_interval interval | ch interval. ch \<in> set eeg_chans \<and> interval \<in> set intervals}"
  by (auto simp: ratio_keys_def)

lemma y_not_ratio_key: "''y'' \<notin> set (ratio_keys intervals)"
  by (auto simp: ratio_keys_def eeg_chans_def)

lemma distinct_ratio_keys:
  "distinct (ratio_keys intervals) \<longleftrightarrow> distinct intervals"
proof
  assume "distinct (ratio_keys intervals)"
  then have "distinct (map (\<lambda>interval. ''C3'' @ ''_'' @ str_interval interval) intervals)"
    by (simp add: ratio_keys_def eeg_chans_def)
  then show "distinct intervals" by (simp add: distinct_map)
next
  assume d: "distinct intervals"
  have inj: "\<And>ch. distinct (map (\<lambda>interval. ch @ ''_'' @ str_interval interval) intervals)"
    using d by (auto simp: distinct_map inj_on_def dest: str_interval_inj)
  show "distinct (ratio_keys intervals)"
    using inj[of "''C3''"] inj[of "''Cz''"] inj[of "''C4''"]
    by (auto simp: ratio_keys_def eeg_chans_def)
qed

lemma length_ratio_keys: "length (ratio_keys intervals) = 3 * length intervals"
  by (simp add: ratio_keys_def eeg_chans_def)

lemma set_concat_const: "set (concat (map (\<lambda>_. K) rows)) = (if rows = [] then {} else set K)"
  by (induction rows) auto

lemma keys_all_appends:
  "fst ` set (concat (map (row_appends bp binning intervals) rows))
     = (if rows = [] then {} else insert ''y'' (set (ratio_keys intervals)))"
proof -
  have "map fst (concat (map (row_appends bp binning intervals) rows))
      = concat (map (\<lambda>_. ratio_keys intervals @ [''y'']) rows)"
    by (simp add: map_concat o_def map_fst_row_appends)
  then have "set (map fst (concat (map (row_appends bp binning intervals) rows)))
      = (if rows = [] then {} else set (ratio_keys intervals @ [''y'']))"
    by (simp only: set_concat_const)
  then show ?thesis by simp
qed

lemma keys_power_ratios_dict:
  "fst ` set (power_ratios_dict bp epochs binning) =
     insert ''y'' (if epochs = [] then {} else set (ratio_keys (consecutive binning)))"
  unfolding power_ratios_dict_def keys_dict_extend keys_all_appends by simp

lemma concat_map_singleton: "concat (map (\<lambda>x. [f x]) xs) = map f xs"
  by (induction xs) simp_all

lemma filter_append_rows:
  "map snd (filter P (concat (map f rows))) = concat (map (\<lambda>row. map snd (filter P (f row))) rows)"
  by (induction rows) simp_all

lemma frame_col_rows:
  assumes "\<And>row. filter (\<lambda>kv. fst kv = k) (f row) = [(k, g row)]"
  shows "frame_col (dict_extend d (concat (map f rows))) k = frame_col d k @ map g rows"
proof -
  have "map snd (filter (\<lambda>kv. fst kv = k) (concat (map f rows))) = concat (map (\<lambda>row. [g row]) rows)"
    unfolding filter_append_rows by (simp add: assms)
  then show ?thesis
    by (simp only: frame_col_dict_extend concat_map_singleton)
qed

lemma frame_col_y0: "frame_col [(''y'', [])] k = []"
  by (simp add: frame_col_def)

lemma y_power_ratios_dict:
  "frame_col (power_ratios_dict bp epochs binning) ''y'' = map (\<lambda>row. IntCell (event_type row)) epochs"
proof -
  have "\<And>row. filter (\<lambda>kv. fst kv = ''y'') (row_appends bp binning (consecutive binning) row)
        = [(''y'', IntCell (event_type row))]"
  proof -
    fix row
    have "filter (\<lambda>kv. fst kv = ''y'') (concat (map (chan_cells bp binning (consecutive binning) row) eeg_chans)) = []"
    proof (rule filter_key_absent)
      show "''y'' \<notin> fst ` set (concat (map (chan_cells bp binning (consecutive binning) row) eeg_chans))"
        using y_not_ratio_key[of "consecutive binning"]
          map_fst_all_cells[of bp binning "consecutive binning" row]
        by (metis list.set_map)
    qed
    then show "filter (\<lambda>kv. fst kv = ''y'') (row_appends bp binning (consecutive binning) row)
        = [(''y'', IntCell (event_type row))]"
      by (simp add: row_appends_def)
  qed
  then have "frame_col (power_ratios_dict bp epochs binning) ''y''
      = frame_col [(''y'', [])] ''y'' @ map (\<lambda>row. IntCell (event_type row)) epochs"
    unfolding power_ratios_dict_def by (rule frame_col_rows)
  then show ?thesis by (simp add: frame_col_y0)
qed

lemma dict_extend_head:
  "\<exists>c' d'. dict_extend ((k, c) # d) kvs = (k, c') # d'"
proof (induction kvs arbitrary: c d)
  case Nil
  then show ?case by simp
next
  case (Cons kv kvs)
  obtain k' v where kv: "kv = (k', v)" by (cases kv)
  show ?case using Cons.IH by (cases "k' = k") (simp_all add: kv)
qed

lemma nrows_power_ratios_dict: "nrows (power_ratios_dict bp epochs binning) = length epochs"
proof -
  obtain c' d' where P: "power_ratios_dict bp epochs binning = (''y'', c') # d'"
    unfolding power_ratios_dict_def using dict_extend_head by blast
  have "frame_col (power_ratios_dict bp epochs binning) ''y'' = c'"
    by (simp add: P frame_col_def)
  then have "c' = map (\<lambda>row. IntCell (event_type row)) epochs"
    by (simp only: y_power_ratios_dict)
  then show ?thesis by (simp add: P)
qed

lemma ratio_power_ratios_dict:
  assumes d: "distinct (consecutive binning)" and ch: "ch \<in> set eeg_chans"
    and j: "j < length (consecutive binning)"
  shows "frame_col (power_ratios_dict bp epochs binning) (ch @ ''_'' @ str_interval (consecutive binning ! j))
         = map (\<lambda>row. FloatCell (Fin (ratios_of bp binning row ch ! j))) epochs"
proof -
  let ?iv = "consecutive binning"
  let ?k = "ch @ ''_'' @ str_interval (?iv ! j)"
  have "\<And>row. filter (\<lambda>kv. fst kv = ?k) (row_appends bp binning ?iv row)
        = [(?k, FloatCell (Fin (ratios_of bp binning row ch ! j)))]"
  proof (rule filter_key_distinct)
    fix row
    show "distinct (map fst (row_appends bp binning ?iv row))"
      using d y_not_ratio_key by (simp add: map_fst_row_appends distinct_ratio_keys)
    have "(j, ?iv ! j) \<in> set (enumerate 0 ?iv)"
      using j by (simp add: in_set_enumerate_eq)
    then have "(?k, FloatCell (Fin (ratios_of bp binning row ch ! j))) \<in> set (chan_cells bp binning ?iv row ch)"
      unfolding chan_cells_def by (force simp: image_iff)
    then show "(?k, FloatCell (Fin (ratios_of bp binning row ch ! j))) \<in> set (row_appends bp binning ?iv row)"
      using ch by (auto simp: row_appends_def)
  qed
  then have "frame_col (power_ratios_dict bp epochs binning) ?k
      = frame_col [(''y'', [])] ?k @ map (\<lambda>row. FloatCell (Fin (ratios_of bp binning row ch ! j))) epochs"
    unfolding power_ratios_dict_def by (rule frame_col_rows)
  then show ?thesis by (simp add: frame_col_y0)
qed

lemma map_fst_power_ratios_dict:
  assumes d: "distinct (consecutive binning)" and ne: "epochs \<noteq> []"
  shows "map fst (power_ratios_dict bp epochs binning) = ''y'' # ratio_keys (consecutive binning)"
proof -
  let ?iv = "consecutive binning"
  let ?A = "row_appends bp binning ?iv"
  obtain row rows where ep: "epochs = row # rows" using ne by (cases epochs) auto
  let ?cells = "concat (map (chan_cells bp binning ?iv row) eeg_chans)"
  have keys: "map fst ?cells = ratio_keys ?iv" by (rule map_fst_all_cells)
  have dk: "distinct (map fst ?cells)" using d by (simp add: keys distinct_ratio_keys)
  have "fst ` set ?cells = set (ratio_keys ?iv)" using keys by (metis list.set_map)
  then have dj: "fst ` set ?cells \<inter> fst ` set [(''y'', [] :: num_cell list)] = {}"
    using y_not_ratio_key[of ?iv] by simp
  have 1: "map fst (dict_extend [(''y'', [])] ?cells) = ''y'' # ratio_keys ?iv"
    using map_fst_dict_extend_new[OF dk dj] by (simp add: keys)
  let ?d1 = "dict_extend [(''y'', [])] (?A row)"
  have 2: "map fst ?d1 = ''y'' # ratio_keys ?iv"
  proof -
    have "?d1 = dict_append ''y'' (IntCell (event_type row)) (dict_extend [(''y'', [])] ?cells)"
      by (simp add: row_appends_def dict_extend_append)
    moreover have "''y'' \<in> fst ` set (dict_extend [(''y'', [])] ?cells)"
      by (simp add: keys_dict_extend)
    ultimately show ?thesis by (simp add: map_fst_dict_append 1)
  qed
  have "fst ` set (concat (map ?A rows)) \<subseteq> fst ` set ?d1"
  proof -
    have "fst ` set ?d1 = set (''y'' # ratio_keys ?iv)" using 2 by (metis list.set_map)
    then show ?thesis unfolding keys_all_appends by auto
  qed
  then have "map fst (dict_extend ?d1 (concat (map ?A rows))) = map fst ?d1"
    by (rule map_fst_dict_extend_old)
  then show ?thesis
    by (simp add: power_ratios_dict_def ep dict_extend_append 2)
qed

subsection \<open>When the power-bin table is a valid frame\<close>

lemma distinct_power_ratios_dict: "distinct (map fst (power_ratios_dict bp epochs binning))"
  unfolding power_ratios_dict_def by (rule distinct_dict_extend) simp

lemma length_col_power_ratios_dict:
  assumes d: "distinct (consecutive binning)"
    and k: "k \<in> fst ` set (power_ratios_dict bp epochs binning)"
  shows "length (frame_col (power_ratios_dict bp epochs binning) k) = length epochs"
proof (cases "k = ''y''")
  case True
  then show ?thesis by (simp add: y_power_ratios_dict)
next
  case False
  then have "k \<in> set (ratio_keys (consecutive binning))"
    using k by (auto simp: keys_power_ratios_dict split: if_splits)
  then obtain ch interval where ch: "ch \<in> set eeg_chans"
    and iv: "interval \<in> set (consecutive binning)"
    and kk: "k = ch @ ''_'' @ str_interval interval"
    by (auto simp: set_ratio_keys)
  obtain j where j: "j < length (consecutive binning)" "consecutive binning ! j = interval"
    using iv by (auto simp: in_set_conv_nth)
  show ?thesis
    using ratio_power_ratios_dict[OF d ch j(1), of bp epochs] by (simp add: kk j(2))
qed

lemma same_length_power_ratios_dict:
  assumes "distinct (consecutive binning)"
  shows "same_length (power_ratios_dict bp epochs binning)"
  using distinct_power_ratios_dict length_col_power_ratios_dict[OF assms]
  by (rule same_length_cols)

lemma count_one_distinct:
  assumes "\<And>k. k \<in> set xs \<Longrightarrow> count_list xs k = 1"
  shows "distinct xs"
proof (rule ccontr)
  assume "\<not> distinct xs"
  then obtain as bs cs y where xs: "xs = as @ [y] @ bs @ [y] @ cs"
    using not_distinct_decomp by blast
  then have "2 \<le> count_list xs y" by simp
  moreover have "y \<in> set xs" by (simp add: xs)
  ultimately show False using assms[of y] by simp
qed

lemma length_ratio_col:
  assumes "k \<noteq> ''y''"
  shows "length (frame_col (power_ratios_dict bp epochs binning) k)
         = length epochs * count_list (ratio_keys (consecutive binning)) k"
proof -
  let ?A = "row_appends bp binning (consecutive binning)"
  have "length (frame_col (power_ratios_dict bp epochs binning) k)
      = length (filter (\<lambda>kv. fst kv = k) (concat (map ?A epochs)))"
    by (simp add: power_ratios_dict_def frame_col_dict_extend frame_col_y0)
  also have "\<dots> = length (filter ((=) k) (map fst (concat (map ?A epochs))))"
    by (simp add: filter_map o_def eq_commute)
  also have "\<dots> = count_list (concat (map (\<lambda>_. ratio_keys (consecutive binning) @ [''y'']) epochs)) k"
    by (simp add: count_list_eq_length_filter map_concat o_def map_fst_row_appends)
  also have "\<dots> = length epochs * count_list (ratio_keys (consecutive binning)) k"
    using assms by (simp add: count_list_concat o_def sum_list_triv)
  finally show ?thesis .
qed

lemma valid_frame_distinct_intervals:
  assumes sl: "same_length (power_ratios_dict bp epochs binning)" and ne: "epochs \<noteq> []"
  shows "distinct (consecutive binning)"
proof -
  let ?P = "power_ratios_dict bp epochs binning"
  let ?K = "ratio_keys (consecutive binning)"
  have "\<And>k. k \<in> set ?K \<Longrightarrow> count_list ?K k = 1"
  proof -
    fix k assume k: "k \<in> set ?K"
    then have ky: "k \<noteq> ''y''" using y_not_ratio_key by auto
    have "k \<in> fst ` set ?P" using k ne by (simp add: keys_power_ratios_dict)
    then have "length (frame_col ?P k) = nrows ?P" using sl by (rule same_length_frame_col[rotated])
    then have "length epochs * count_list ?K k = length epochs"
      by (simp add: length_ratio_col[OF ky] nrows_power_ratios_dict)
    then show "count_list ?K k = 1" using ne by simp
  qed
  then have "distinct ?K" by (rule count_one_distinct)
  then show ?thesis by (simp add: distinct_ratio_keys)
qed

lemma for_loop_Inl:
  "for_loop body xs s = Inl e \<Longrightarrow> \<exists>x \<in> set xs. \<exists>t. body x t = Inl e"
  by (induction xs arbitrary: s) (auto split: sum.splits)

lemma default_binning_ordered: "sorted_wrt (\<lambda>a b. num_val a < num_val b) default_binning"
  by (simp add: default_binning_def)

lemma demo_bin_power_ok:
  "list_all (bin_power_ok demo_bin_power default_binning (length default_binning - 1)) demo_epochs"
  by (simp add: bin_power_ok_def demo_bin_power_def demo_epochs_def default_binning_def eeg_chans_def)

subsection \<open>Loops that add one cell per row and key\<close>

lemma cell_loop_ok:
  assumes "\<And>row x. row \<in> set rows \<Longrightarrow> x \<in> set xs \<Longrightarrow> cell row x = Inr (c row x)"
  shows "cell_loop cell rows xs d = Inr (dict_extend d (concat (map (\<lambda>row. map (c row) xs) rows)))"
proof -
  have inner: "\<And>row d. row \<in> set rows \<Longrightarrow>
      for_loop (\<lambda>x d. case cell row x of Inl e \<Rightarrow> Inl e
                                         | Inr kv \<Rightarrow> Inr (dict_append (fst kv) (snd kv) d)) xs d
      = Inr (dict_extend d (map (c row) xs))"
  proof -
    fix row d assume row: "row \<in> set rows"
    have "for_loop (\<lambda>x d. case cell row x of Inl e \<Rightarrow> Inl e
                                         | Inr kv \<Rightarrow> Inr (dict_append (fst kv) (snd kv) d)) xs d
        = Inr (fold (\<lambda>x d. dict_append (fst (c row x)) (snd (c row x)) d) xs d)"
      by (rule for_loop_total) (simp add: assms[OF row])
    then show "for_loop (\<lambda>x d. case cell row x of Inl e \<Rightarrow> Inl e
                                         | Inr kv \<Rightarrow> Inr (dict_append (fst kv) (snd kv) d)) xs d
      = Inr (dict_extend d (map (c row) xs))"
      by (simp only: fold_dict_append_map)
  qed
  have "cell_loop cell rows xs d = Inr (fold (\<lambda>row d. dict_extend d (map (c row) xs)) rows d)"
    unfolding cell_loop_def by (rule for_loop_total) (rule inner)
  then show ?thesis by (simp only: fold_dict_extend)
qed

lemma cell_loop_first:
  "cell r x = Inl e \<Longrightarrow> cell_loop cell (r # rows) (x # xs) d = Inl e"
  by (simp add: cell_loop_def)

lemma cell_loop_first_second:
  "cell r x = Inr kv \<Longrightarrow> cell r x' = Inl e \<Longrightarrow> cell_loop cell (r # rows) (x # x' # xs) d = Inl e"
  by (simp add: cell_loop_def)

lemma cell_loop_no_rows: "cell_loop cell [] xs d = Inr d"
  by (simp add: cell_loop_def)

lemma theta_beta_ratios_loop:
  "theta_beta_ratios pr_df = cell_loop theta_beta_cell (iterrows pr_df) eeg_chans []"
proof -
  have "(\<lambda>row ratios_dict.
         for_loop (\<lambda>ch ratios_dict.
             let curr_key = ch @ ''_theta_beta'';
                 power_bin_theta_key = ch @ ''_(4, 7)'';
                 power_bin_beta_key = ch @ ''_(12, 30)''
             in case row_get row power_bin_theta_key of
                  Inl e \<Rightarrow> Inl e
                | Inr theta_val \<Rightarrow>
                    (case row_get row power_bin_beta_key of
                       Inl e \<Rightarrow> Inl e
                     | Inr beta_val \<Rightarrow>
                         Inr (dict_append curr_key (FloatCell (np_divide theta_val beta_val))
                                ratios_dict)))
           eeg_chans ratios_dict)
      = (\<lambda>row d.
         for_loop (\<lambda>x d. case theta_beta_cell row x of Inl e \<Rightarrow> Inl e
                                            | Inr kv \<Rightarrow> Inr (dict_append (fst kv) (snd kv) d))
           eeg_chans d)"
    by (intro ext arg_cong2[where f = "\<lambda>b d. for_loop b eeg_chans d"])
      (simp_all add: theta_beta_cell_def Let_def split: sum.splits)
  then show ?thesis by (simp add: theta_beta_ratios_def cell_loop_def)
qed

lemma C3_C4_differences_loop:
  "C3_C4_differences pr_df intervals = cell_loop diff_cell (iterrows pr_df) intervals []"
proof -
  have "(\<lambda>row diffs_dict.
         for_loop (\<lambda>interval diffs_dict.
             let curr_key = ''C3_C4_diff_'' @ str_interval interval;
                 power_bin_C3_key = ''C3_'' @ str_interval interval;
                 power_bin_C4_key = ''C4_'' @ str_interval interval
             in case row_get row power_bin_C3_key of
                  Inl e \<Rightarrow> Inl e
                | Inr C3_val \<Rightarrow>
                    (case row_get row power_bin_C4_key of
                       Inl e \<Rightarrow> Inl e
                     | Inr C4_val \<Rightarrow>
                         Inr (dict_append curr_key (FloatCell (np_subtract C3_val C4_val))
                                diffs_dict)))
           intervals diffs_dict)
      = (\<lambda>row d.
         for_loop (\<lambda>x d. case diff_cell row x of Inl e \<Rightarrow> Inl e
                                            | Inr kv \<Rightarrow> Inr (dict_append (fst kv) (snd kv) d))
           intervals d)"
    by (intro ext arg_cong2[where f = "\<lambda>b d. for_loop b intervals d"])
      (simp_all add: diff_cell_def Let_def split: sum.splits)
  then show ?thesis by (simp add: C3_C4_differences_def cell_loop_def)
qed

subsection \<open>Reading a row\<close>

lemma iterrows_row_at: "iterrows df = map (row_at df) [0..<nrows df]"
  by (simp add: iterrows_def row_at_def)

lemma row_get_row_at:
  "row_get (row_at df i) key =
     (if key \<in> fst ` set df then Inr (cell_float (frame_col df key ! i)) else Inl (KeyError key))"
proof -
  have "map_of (row_at df i) key = map_option (\<lambda>col. cell_float (col ! i)) (map_of df key)"
    unfolding row_at_def by (simp add: map_of_map)
  moreover have "key \<in> fst ` set df \<longleftrightarrow> map_of df key \<noteq> None"
    by (simp add: map_of_eq_None_iff)
  ultimately show ?thesis
    by (cases "map_of df key") (simp_all add: row_get_def frame_col_def)
qed

subsection \<open>A table built one cell per row and key\<close>

lemma frame_col_table_dict:
  assumes "distinct (map key xs)" and "x \<in> set xs"
  shows "frame_col (table_dict key val rows xs) (key x) = map (\<lambda>r. val r x) rows"
proof -
  have "\<And>r. filter (\<lambda>kv. fst kv = key x) (map (\<lambda>x. (key x, val r x)) xs) = [(key x, val r x)]"
    using assms by (intro filter_key_distinct) (auto simp: o_def)
  then have "frame_col (table_dict key val rows xs) (key x) = frame_col [] (key x) @ map (\<lambda>r. val r x) rows"
    unfolding table_dict_def by (rule frame_col_rows)
  then show ?thesis by (simp add: frame_col_def)
qed

lemma keys_table_dict:
  "fst ` set (table_dict key val rows xs) = (if rows = [] then {} else key ` set xs)"
proof -
  have "map fst (concat (map (\<lambda>r. map (\<lambda>x. (key x, val r x)) xs) rows))
      = concat (map (\<lambda>_. map key xs) rows)"
    by (simp add: map_concat o_def)
  then have "set (map fst (concat (map (\<lambda>r. map (\<lambda>x. (key x, val r x)) xs) rows)))
      = (if rows = [] then {} else set (map key xs))"
    by (simp only: set_concat_const)
  then show ?thesis by (simp add: table_dict_def keys_dict_extend)
qed

lemma distinct_table_dict: "distinct (map fst (table_dict key val rows xs))"
  unfolding table_dict_def by (rule distinct_dict_extend) simp

lemma table_dict_no_rows: "table_dict key val [] xs = []"
  by (simp add: table_dict_def)

lemma length_col_table_dict:
  assumes "distinct (map key xs)" and "k \<in> fst ` set (table_dict key val rows xs)"
  shows "length (frame_col (table_dict key val rows xs) k) = length rows"
proof -
  obtain x where "x \<in> set xs" "k = key x"
    using assms(2) by (auto simp: keys_table_dict split: if_splits)
  then show ?thesis using frame_col_table_dict[OF assms(1), of x val rows] by simp
qed

lemma same_length_table_dict:
  assumes "distinct (map key xs)"
  shows "same_length (table_dict key val rows xs)"
  using distinct_table_dict length_col_table_dict[OF assms]
  by (rule same_length_cols)

lemma cols_table_dict:
  assumes "distinct (map key xs)" and "c \<in> set (table_dict key val rows xs)"
  shows "length (snd c) = length rows"
proof -
  have "frame_col (table_dict key val rows xs) (fst c) = snd c"
    using assms(2) distinct_table_dict[of key val rows xs]
    by (cases c) (auto intro: frame_col_member)
  moreover have "fst c \<in> fst ` set (table_dict key val rows xs)" using assms(2) by auto
  ultimately show ?thesis using length_col_table_dict[OF assms(1), of "fst c" val rows] by simp
qed

lemma cell_loop_table:
  assumes "\<And>row x. row \<in> set rows \<Longrightarrow> x \<in> set xs \<Longrightarrow> cell (f row) x = Inr (key x, val row x)"
  shows "cell_loop cell (map f rows) xs [] = Inr (table_dict key val rows xs)"
proof -
  have "cell_loop cell (map f rows) xs []
      = Inr (dict_extend [] (concat (map (\<lambda>fr. map (\<lambda>x. case cell fr x of Inr kv \<Rightarrow> kv) xs) (map f rows))))"
    by (rule cell_loop_ok) (auto simp: assms)
  also have "concat (map (\<lambda>fr. map (\<lambda>x. case cell fr x of Inr kv \<Rightarrow> kv) xs) (map f rows))
      = concat (map (\<lambda>r. map (\<lambda>x. (key x, val r x)) xs) rows)"
    by (rule arg_cong[where f = concat]) (simp add: assms)
  finally show ?thesis by (simp add: table_dict_def)
qed

subsection \<open>The band-ratio cell\<close>

lemma theta_beta_keys_distinct: "distinct (map (\<lambda>ch. ch @ ''_theta_beta'') eeg_chans)"
  by (simp add: eeg_chans_def)

lemma theta_beta_cell_row_at:
  "theta_beta_cell (row_at pr i) ch =
     (if ch @ ''_(4, 7)'' \<notin> fst ` set pr then Inl (KeyError (ch @ ''_(4, 7)''))
      else if ch @ ''_(12, 30)'' \<notin> fst ` set pr then Inl (KeyError (ch @ ''_(12, 30)''))
      else Inr (ch @ ''_theta_beta'', theta_beta_value pr i ch))"
  by (simp add: theta_beta_cell_def row_get_row_at theta_beta_value_def)

lemma band_ratios_df_ok:
  assumes "\<And>ch. ch \<in> set eeg_chans \<Longrightarrow>
             ch @ ''_(4, 7)'' \<in> fst ` set pr \<and> ch @ ''_(12, 30)'' \<in> fst ` set pr"
  shows "band_ratios_df pr = Inr (band_dict pr)"
proof -
  have "theta_beta_ratios pr = Inr (band_dict pr)"
    unfolding theta_beta_ratios_loop iterrows_row_at band_dict_def
    by (rule cell_loop_table) (simp add: theta_beta_cell_row_at assms)
  moreover have "same_length (band_dict pr)"
    unfolding band_dict_def using theta_beta_keys_distinct by (rule same_length_table_dict)
  ultimately show ?thesis by (simp add: band_ratios_df_def DataFrame_def)
qed

lemma band_ratios_df_no_rows: "nrows pr = 0 \<Longrightarrow> band_ratios_df pr = Inr []"
  by (simp add: band_ratios_df_def theta_beta_ratios_loop iterrows_row_at cell_loop_no_rows DataFrame_def)

lemma band_ratios_df_no_theta:
  assumes "0 < nrows pr" and "''C3_(4, 7)'' \<notin> fst ` set pr"
  shows "band_ratios_df pr = Inl (KeyError ''C3_(4, 7)'')"
proof -
  have rows: "[0..<nrows pr] = 0 # [1..<nrows pr]" using assms(1) by (simp add: upt_rec)
  have "theta_beta_cell (row_at pr 0) ''C3'' = Inl (KeyError ''C3_(4, 7)'')"
    using assms(2) by (simp add: theta_beta_cell_row_at)
  then have "theta_beta_ratios pr = Inl (KeyError ''C3_(4, 7)'')"
    unfolding theta_beta_ratios_loop iterrows_row_at rows eeg_chans_def
    by (simp only: list.map cell_loop_first)
  then show ?thesis by (simp add: band_ratios_df_def)
qed

lemma band_ratios_df_no_beta:
  assumes "0 < nrows pr" and "''C3_(4, 7)'' \<in> fst ` set pr" and "''C3_(12, 30)'' \<notin> fst ` set pr"
  shows "band_ratios_df pr = Inl (KeyError ''C3_(12, 30)'')"
proof -
  have rows: "[0..<nrows pr] = 0 # [1..<nrows pr]" using assms(1) by (simp add: upt_rec)
  have "theta_beta_cell (row_at pr 0) ''C3'' = Inl (KeyError ''C3_(12, 30)'')"
    using assms(2,3) by (simp add: theta_beta_cell_row_at)
  then have "theta_beta_ratios pr = Inl (KeyError ''C3_(12, 30)'')"
    unfolding theta_beta_ratios_loop iterrows_row_at rows eeg_chans_def
    by (simp only: list.map cell_loop_first)
  then show ?thesis by (simp add: band_ratios_df_def)
qed

lemma frame_col_band_dict:
  assumes "ch \<in> set eeg_chans"
  shows "frame_col (band_dict pr) (ch @ ''_theta_beta'') = map (\<lambda>i. theta_beta_value pr i ch) [0..<nrows pr]"
  unfolding band_dict_def
  using theta_beta_keys_distinct assms by (rule frame_col_table_dict)

subsection \<open>Which power-bin columns exist\<close>

lemma ratio_key_in_table:
  assumes "epochs \<noteq> []" and "ch \<in> set eeg_chans"
  shows "ch @ ''_'' @ str_interval interval \<in> fst ` set (power_ratios_dict bp epochs binning)
         \<longleftrightarrow> interval \<in> set (consecutive binning)"
proof -
  have "ch @ ''_'' @ str_interval interval \<in> set (ratio_keys (consecutive binning))
        \<longleftrightarrow> interval \<in> set (consecutive binning)"
  proof
    assume "ch @ ''_'' @ str_interval interval \<in> set (ratio_keys (consecutive binning))"
    then obtain ch' interval' where "ch' \<in> set eeg_chans" "interval' \<in> set (consecutive binning)"
      "ch @ ''_'' @ str_interval interval = ch' @ ''_'' @ str_interval interval'"
      unfolding set_ratio_keys by blast
    then show "interval \<in> set (consecutive binning)"
      using chan_key_inj[OF assms(2), of ch' interval interval'] by simp
  next
    assume "interval \<in> set (consecutive binning)"
    then show "ch @ ''_'' @ str_interval interval \<in> set (ratio_keys (consecutive binning))"
      unfolding set_ratio_keys using assms(2) by blast
  qed
  then show ?thesis
    using assms chan_key_not_y[of ch "str_interval interval"]
    by (simp add: keys_power_ratios_dict)
qed

lemma theta_key_in_table:
  assumes "epochs \<noteq> []" and "ch \<in> set eeg_chans"
  shows "ch @ ''_(4, 7)'' \<in> fst ` set (power_ratios_dict bp epochs binning)
         \<longleftrightarrow> (PyInt 4, PyInt 7) \<in> set (consecutive binning)"
  using ratio_key_in_table[OF assms, of "(PyInt 4, PyInt 7)" bp binning]
  by (simp add: str_interval_theta)

lemma beta_key_in_table:
  assumes "epochs \<noteq> []" and "ch \<in> set eeg_chans"
  shows "ch @ ''_(12, 30)'' \<in> fst ` set (power_ratios_dict bp epochs binning)
         \<longleftrightarrow> (PyInt 12, PyInt 30) \<in> set (consecutive binning)"
  using ratio_key_in_table[OF assms, of "(PyInt 12, PyInt 30)" bp binning]
  by (simp add: str_interval_beta)

lemma np_divide_zero:
  "np_divide x (Fin 0) = PosInf \<or> np_divide x (Fin 0) = NegInf \<or> np_divide x (Fin 0) = NaN"
  by (cases x) simp_all

lemma demo_table:
  assumes "list_all (bin_power_ok bp binning (length binning - 1)) epochs"
    and "distinct (consecutive binning)"
  shows "power_ratios_df bp epochs binning = Inr (power_ratios_dict bp epochs binning)"
  using power_ratios_df_ok[OF assms(1)] same_length_power_ratios_dict[OF assms(2), of bp epochs]
  by (simp add: DataFrame_def)

subsection \<open>The channel-difference cell\<close>

lemma diff_cell_row_at:
  "diff_cell (row_at pr i) interval =
     (if ''C3_'' @ str_interval interval \<notin> fst ` set pr
      then Inl (KeyError (''C3_'' @ str_interval interval))
      else if ''C4_'' @ str_interval interval \<notin> fst ` set pr
      then Inl (KeyError (''C4_'' @ str_interval interval))
      else Inr (''C3_C4_diff_'' @ str_interval interval, diff_value pr i interval))"
  by (simp add: diff_cell_def row_get_row_at diff_value_def)

lemma diff_keys_distinct:
  "distinct intervals \<Longrightarrow> distinct (map (\<lambda>interval. ''C3_C4_diff_'' @ str_interval interval) intervals)"
  by (auto simp: distinct_map inj_on_def dest: str_interval_inj)

lemma C3_C4_differences_ok:
  assumes "\<And>interval. interval \<in> set intervals \<Longrightarrow>
             ''C3_'' @ str_interval interval \<in> fst ` set pr \<and>
             ''C4_'' @ str_interval interval \<in> fst ` set pr"
  shows "C3_C4_differences pr intervals = Inr (diff_dict pr intervals)"
  unfolding C3_C4_differences_loop iterrows_row_at diff_dict_def
proof (rule cell_loop_table)
  fix row :: nat and x
  assume "x \<in> set intervals"
  from assms[OF this]
  show "diff_cell (row_at pr row) x = Inr (''C3_C4_diff_'' @ str_interval x, diff_value pr row x)"
    by (simp add: diff_cell_row_at)
qed

lemma C3_C4_differences_df_ok:
  assumes "\<And>interval. interval \<in> set intervals \<Longrightarrow>
             ''C3_'' @ str_interval interval \<in> fst ` set pr \<and>
             ''C4_'' @ str_interval interval \<in> fst ` set pr"
    and "distinct intervals"
  shows "C3_C4_differences_df pr intervals = Inr (diff_dict pr intervals)"
proof -
  have "same_length (diff_dict pr intervals)"
    unfolding diff_dict_def using diff_keys_distinct[OF assms(2)] by (rule same_length_table_dict)
  then show ?thesis
    using C3_C4_differences_ok[of intervals pr] assms(1)
    by (simp add: C3_C4_differences_df_def DataFrame_def)
qed

lemma C3_C4_differences_df_no_rows:
  "nrows pr = 0 \<Longrightarrow> C3_C4_differences_df pr intervals = Inr []"
  by (simp add: C3_C4_differences_df_def C3_C4_differences_loop iterrows_row_at
      cell_loop_no_rows DataFrame_def)

lemma diff_dict_no_rows: "nrows pr = 0 \<Longrightarrow> diff_dict pr intervals = []"
  by (simp add: diff_dict_def table_dict_no_rows)

lemma band_dict_no_rows: "nrows pr = 0 \<Longrightarrow> band_dict pr = []"
  by (simp add: band_dict_def table_dict_no_rows)

lemma frame_col_diff_dict:
  assumes "distinct intervals" and "interval \<in> set intervals"
  shows "frame_col (diff_dict pr intervals) (''C3_C4_diff_'' @ str_interval interval)
         = map (\<lambda>i. diff_value pr i interval) [0..<nrows pr]"
  unfolding diff_dict_def
  using diff_keys_distinct[OF assms(1)] assms(2)
  by (rule frame_col_table_dict[where key = "\<lambda>interval. ''C3_C4_diff_'' @ str_interval interval"])

subsection \<open>Putting frames side by side\<close>

lemma same_length_all_cols:
  assumes "same_length d" and "c \<in> set d"
  shows "length (snd c) = nrows d"
proof -
  obtain k0 c0 d' where d: "d = (k0, c0) # d'" using assms(2) by (cases d) auto
  then have "(k0, c0) \<in> set d" by simp
  then have "length (snd c) = length (snd (k0, c0))"
    using assms unfolding same_length_iff by blast
  then show ?thesis by (simp add: d)
qed

lemma nrows_le_cols:
  assumes "\<And>c. c \<in> set f \<Longrightarrow> length (snd c) = n"
  shows "nrows f \<le> n"
proof (cases f)
  case Nil
  then show ?thesis by simp
next
  case (Cons c f')
  then have "length (snd c) = n" using assms by simp
  then show ?thesis by (cases c) (simp add: Cons)
qed

lemma fold_max_le:
  "a \<le> (n :: nat) \<Longrightarrow> (\<And>x. x \<in> set xs \<Longrightarrow> x \<le> n) \<Longrightarrow> fold max xs a \<le> n"
  by (induction xs arbitrary: a) simp_all

lemma pd_concat_same_rows:
  assumes "\<And>f c. f \<in> set frames \<Longrightarrow> c \<in> set f \<Longrightarrow> length (snd c) = n"
  shows "pd_concat frames = concat frames"
proof -
  let ?N = "fold max (map nrows frames) 0"
  have N: "?N \<le> n"
    by (rule fold_max_le) (auto intro: nrows_le_cols assms)
  have "\<And>f. f \<in> set frames \<Longrightarrow> map (\<lambda>(k, col). (k, pad_col ?N col)) f = f"
  proof -
    fix f assume f: "f \<in> set frames"
    have "\<And>c. c \<in> set f \<Longrightarrow> (\<lambda>(k, col). (k, pad_col ?N col)) c = c"
      using assms[OF f] N by (auto simp: pad_col_def)
    then show "map (\<lambda>(k, col). (k, pad_col ?N col)) f = f"
      by (simp add: map_idI)
  qed
  then have "map (map (\<lambda>(k, col). (k, pad_col ?N col))) frames = frames"
    by (simp add: map_idI)
  then show ?thesis by (simp add: pd_concat_def Let_def)
qed

subsection \<open>The band-ratio table of a power-bin table\<close>

lemma band_ratios_df_of_table:
  assumes "band_ratios_df (power_ratios_dict bp epochs binning) = Inr br"
  shows "br = band_dict (power_ratios_dict bp epochs binning)"
proof (cases "epochs = []")
  case True
  then have "nrows (power_ratios_dict bp epochs binning) = 0"
    by (simp add: nrows_power_ratios_dict)
  then show ?thesis
    using assms by (simp add: band_ratios_df_no_rows band_dict_no_rows)
next
  case False
  let ?pr = "power_ratios_dict bp epochs binning"
  have rows: "0 < nrows ?pr" using False by (simp add: nrows_power_ratios_dict)
  have c3: "''C3'' \<in> set eeg_chans" by (simp add: eeg_chans_def)
  have t: "(PyInt 4, PyInt 7) \<in> set (consecutive binning)"
    using band_ratios_df_no_theta[OF rows] assms theta_key_in_table[OF False c3, of bp binning]
    by (cases "(PyInt 4, PyInt 7) \<in> set (consecutive binning)") auto
  have b: "(PyInt 12, PyInt 30) \<in> set (consecutive binning)"
    using band_ratios_df_no_beta[OF rows] assms t theta_key_in_table[OF False c3, of bp binning]
      beta_key_in_table[OF False c3, of bp binning]
    by (cases "(PyInt 12, PyInt 30) \<in> set (consecutive binning)") auto
  have "band_ratios_df ?pr = Inr (band_dict ?pr)"
    using t b by (intro band_ratios_df_ok) (simp add: theta_key_in_table[OF False] beta_key_in_table[OF False])
  then show ?thesis using assms by simp
qed

lemma cols_band_dict:
  "c \<in> set (band_dict pr) \<Longrightarrow> length (snd c) = nrows pr"
  unfolding band_dict_def
  using cols_table_dict[OF theta_beta_keys_distinct, of c "theta_beta_value pr" "[0..<nrows pr]"]
  by simp

lemma cols_diff_dict:
  assumes "distinct intervals" and "c \<in> set (diff_dict pr intervals)"
  shows "length (snd c) = nrows pr"
  using cols_table_dict[OF diff_keys_distinct[OF assms(1)], of c "diff_value pr" "[0..<nrows pr]"] assms(2)
  unfolding diff_dict_def by simp

lemma demo_intervals:
  "consecutive default_binning =
     [(PyFloat False 0 [D5], PyInt 4), (PyInt 4, PyInt 7), (PyInt 7, PyInt 12), (PyInt 12, PyInt 30)]"
  by (simp add: consecutive_def default_binning_def)

lemma demo_power_ratios:
  "power_ratios_df demo_bin_power demo_epochs default_binning
     = Inr (power_ratios_dict demo_bin_power demo_epochs default_binning)"
  using demo_bin_power_ok by (rule demo_table) (simp add: demo_intervals)

lemma demo_epochs_ne: "demo_epochs \<noteq> []"
  by (simp add: demo_epochs_def)

lemma demo_band_ratios:
  "band_ratios_df (power_ratios_dict demo_bin_power demo_epochs default_binning)
     = Inr (band_dict (power_ratios_dict demo_bin_power demo_epochs default_binning))"
  by (rule band_ratios_df_ok)
    (simp add: theta_key_in_table[OF demo_epochs_ne] beta_key_in_table[OF demo_epochs_ne] demo_intervals)

lemma demo_theta_col:
  assumes "ch \<in> set eeg_chans"
  shows "frame_col (power_ratios_dict demo_bin_power demo_epochs default_binning) (ch @ ''_(4, 7)'')
         = map (\<lambda>row. FloatCell (Fin (sum_list (samples row ch) / 5))) demo_epochs"
proof -
  have d: "distinct (consecutive default_binning)" by (simp add: demo_intervals)
  have j: "1 < length (consecutive default_binning)" by (simp add: demo_intervals)
  have r: "\<And>row. ratios_of demo_bin_power default_binning row ch ! Suc 0 = sum_list (samples row ch) / 5"
    by (simp add: ratios_of_def demo_bin_power_def default_binning_def)
  show ?thesis
    using ratio_power_ratios_dict[OF d assms j, of demo_bin_power demo_epochs]
    by (simp add: demo_intervals str_interval_theta r)
qed

subsection \<open>The statistics loop\<close>

lemma fold_pair_append:
  "fold (\<lambda>x acc. (dict_append (k x) (s x) (fst acc), dict_append (k x) (m x) (snd acc))) xs (S, A)
     = (dict_extend S (map (\<lambda>x. (k x, s x)) xs), dict_extend A (map (\<lambda>x. (k x, m x)) xs))"
  by (induction xs arbitrary: S A) simp_all

lemma fold_pair_extend:
  "fold (\<lambda>x acc. (dict_extend (fst acc) (f x), dict_extend (snd acc) (h x))) xs (S, A)
     = (dict_extend S (concat (map f xs)), dict_extend A (concat (map h xs)))"
  by (induction xs arbitrary: S A) (simp_all add: dict_extend_append)

lemma stats_loop_ok:
  assumes "\<And>et ch iv acc. et \<in> set ets \<Longrightarrow> ch \<in> set chs \<Longrightarrow> iv \<in> set ivs \<Longrightarrow>
             body et ch iv acc = Inr (dict_append (k ch iv) (s et ch iv) (fst acc),
                                      dict_append (k ch iv) (m et ch iv) (snd acc))"
  shows "for_loop (\<lambda>et acc. for_loop (\<lambda>ch acc. for_loop (body et ch) ivs acc) chs acc) ets
           (S :: 'v dict, A :: 'w dict)
         = Inr (dict_extend S (concat (map (\<lambda>et. concat (map (\<lambda>ch. map (\<lambda>iv. (k ch iv, s et ch iv)) ivs) chs)) ets)),
                dict_extend A (concat (map (\<lambda>et. concat (map (\<lambda>ch. map (\<lambda>iv. (k ch iv, m et ch iv)) ivs) chs)) ets)))"
proof -
  have inner: "\<And>et ch acc. et \<in> set ets \<Longrightarrow> ch \<in> set chs \<Longrightarrow>
      for_loop (body et ch) ivs acc
        = Inr (dict_extend (fst acc) (map (\<lambda>iv. (k ch iv, s et ch iv)) ivs),
               dict_extend (snd acc) (map (\<lambda>iv. (k ch iv, m et ch iv)) ivs))"
  proof -
    fix et ch and acc :: "'v dict \<times> 'w dict"
    assume et: "et \<in> set ets" and ch: "ch \<in> set chs"
    have "for_loop (body et ch) ivs acc
        = Inr (fold (\<lambda>iv acc. (dict_append (k ch iv) (s et ch iv) (fst acc),
                                dict_append (k ch iv) (m et ch iv) (snd acc))) ivs acc)"
      by (rule for_loop_total) (rule assms[OF et ch])
    then show "for_loop (body et ch) ivs acc
        = Inr (dict_extend (fst acc) (map (\<lambda>iv. (k ch iv, s et ch iv)) ivs),
               dict_extend (snd acc) (map (\<lambda>iv. (k ch iv, m et ch iv)) ivs))"
      using fold_pair_append[of "k ch" "s et ch" "m et ch" ivs "fst acc" "snd acc"] by simp
  qed
  have mid: "\<And>et acc. et \<in> set ets \<Longrightarrow>
      for_loop (\<lambda>ch acc. for_loop (body et ch) ivs acc) chs acc
        = Inr (dict_extend (fst acc) (concat (map (\<lambda>ch. map (\<lambda>iv. (k ch iv, s et ch iv)) ivs) chs)),
               dict_extend (snd acc) (concat (map (\<lambda>ch. map (\<lambda>iv. (k ch iv, m et ch iv)) ivs) chs)))"
  proof -
    fix et and acc :: "'v dict \<times> 'w dict"
    assume et: "et \<in> set ets"
    have "for_loop (\<lambda>ch acc. for_loop (body et ch) ivs acc) chs acc
        = Inr (fold (\<lambda>ch acc. (dict_extend (fst acc) (map (\<lambda>iv. (k ch iv, s et ch iv)) ivs),
                                dict_extend (snd acc) (map (\<lambda>iv. (k ch iv, m et ch iv)) ivs))) chs acc)"
      by (rule for_loop_total) (rule inner[OF et])
    then show "for_loop (\<lambda>ch acc. for_loop (body et ch) ivs acc) chs acc
        = Inr (dict_extend (fst acc) (concat (map (\<lambda>ch. map (\<lambda>iv. (k ch iv, s et ch iv)) ivs) chs)),
               dict_extend (snd acc) (concat (map (\<lambda>ch. map (\<lambda>iv. (k ch iv, m et ch iv)) ivs) chs)))"
      using fold_pair_extend[of "\<lambda>ch. map (\<lambda>iv. (k ch iv, s et ch iv)) ivs"
          "\<lambda>ch. map (\<lambda>iv. (k ch iv, m et ch iv)) ivs" chs "fst acc" "snd acc"] by simp
  qed
  have "for_loop (\<lambda>et acc. for_loop (\<lambda>ch acc. for_loop (body et ch) ivs acc) chs acc) ets (S, A)
      = Inr (fold (\<lambda>et acc.
                (dict_extend (fst acc) (concat (map (\<lambda>ch. map (\<lambda>iv. (k ch iv, s et ch iv)) ivs) chs)),
                 dict_extend (snd acc) (concat (map (\<lambda>ch. map (\<lambda>iv. (k ch iv, m et ch iv)) ivs) chs))))
              ets (S, A))"
    by (rule for_loop_total) (rule mid)
  then show ?thesis
    by (simp only: fold_pair_extend)
qed

lemma map_product:
  "map f (List.product xs ys) = concat (map (\<lambda>x. map (\<lambda>y. f (x, y)) ys) xs)"
  by (induction xs) (simp_all add: o_def)

lemma chan_frequency_stats_body:
  "chan_frequency_stats df intervals =
     for_loop (\<lambda>et acc. for_loop (\<lambda>ch acc. for_loop (stat_body df et ch) intervals acc) eeg_chans acc)
       (map fst event_types) ([], [])"
  by (simp add: chan_frequency_stats_def stat_body_def)

lemma stat_body_ok:
  assumes "this_data df et (ch @ ''_'' @ str_interval interval) = Inr xs"
  shows "stat_body df et ch interval acc =
           Inr (dict_append (ch @ ''_'' @ str_interval interval)
                  (sem_of (class_data df et (ch @ ''_'' @ str_interval interval))) (fst acc),
                dict_append (ch @ ''_'' @ str_interval interval)
                  (np_mean (class_data df et (ch @ ''_'' @ str_interval interval))) (snd acc))"
  using assms by (cases acc) (simp add: stat_body_def Let_def class_data_def sem_of_def)

lemma chan_frequency_stats_ok:
  assumes "\<And>et ch interval. et \<in> set (map fst event_types) \<Longrightarrow> ch \<in> set eeg_chans \<Longrightarrow>
             interval \<in> set intervals \<Longrightarrow>
             \<exists>xs. this_data df et (ch @ ''_'' @ str_interval interval) = Inr xs"
  shows "chan_frequency_stats df intervals
         = Inr (stat_dict sem_of df intervals, stat_dict np_mean df intervals)"
proof -
  have "chan_frequency_stats df intervals =
      Inr (dict_extend [] (concat (map (\<lambda>et. concat (map (\<lambda>ch. map (\<lambda>interval.
                (ch @ ''_'' @ str_interval interval,
                 sem_of (class_data df et (ch @ ''_'' @ str_interval interval)))) intervals) eeg_chans))
              (map fst event_types))),
           dict_extend [] (concat (map (\<lambda>et. concat (map (\<lambda>ch. map (\<lambda>interval.
                (ch @ ''_'' @ str_interval interval,
                 np_mean (class_data df et (ch @ ''_'' @ str_interval interval)))) intervals) eeg_chans))
              (map fst event_types))))"
    unfolding chan_frequency_stats_body
  proof (rule stats_loop_ok)
    fix et ch iv and acc :: "npfloat dict \<times> npfloat dict"
    assume "et \<in> set (map fst event_types)" "ch \<in> set eeg_chans" "iv \<in> set intervals"
    then obtain xs where "this_data df et (ch @ ''_'' @ str_interval iv) = Inr xs"
      using assms by blast
    then show "stat_body df et ch iv acc =
           Inr (dict_append (ch @ ''_'' @ str_interval iv)
                  (sem_of (class_data df et (ch @ ''_'' @ str_interval iv))) (fst acc),
                dict_append (ch @ ''_'' @ str_interval iv)
                  (np_mean (class_data df et (ch @ ''_'' @ str_interval iv))) (snd acc))"
      by (rule stat_body_ok)
  qed
  then show ?thesis
    by (simp add: stat_dict_def table_dict_def map_product)
qed

lemma stat_keys: "map (\<lambda>(ch, interval). ch @ ''_'' @ str_interval interval) (List.product eeg_chans intervals)
                  = ratio_keys intervals"
  by (simp add: map_product ratio_keys_def)

lemma same_length_stat_dict:
  "distinct intervals \<Longrightarrow> same_length (stat_dict stat df intervals)"
  unfolding stat_dict_def
  by (rule same_length_table_dict) (simp only: stat_keys distinct_ratio_keys)

lemma frame_col_stat_dict:
  assumes "distinct intervals" and "ch \<in> set eeg_chans" and "interval \<in> set intervals"
  shows "frame_col (stat_dict stat df intervals) (ch @ ''_'' @ str_interval interval)
         = map (\<lambda>et. stat (class_data df et (ch @ ''_'' @ str_interval interval))) (map fst event_types)"
proof -
  have d: "distinct (map (\<lambda>(ch, interval). ch @ ''_'' @ str_interval interval) (List.product eeg_chans intervals))"
    using assms(1) by (simp only: stat_keys distinct_ratio_keys)
  have x: "(ch, interval) \<in> set (List.product eeg_chans intervals)"
    using assms(2,3) by simp
  show ?thesis
    unfolding stat_dict_def
    using frame_col_table_dict[OF d x, of "\<lambda>et (ch, interval). stat (class_data df et (ch @ ''_'' @ str_interval interval))"
        "map fst event_types"]
    by simp
qed

subsection \<open>The values of one class\<close>

lemma map_of_frame_col: "k \<in> fst ` set d \<Longrightarrow> map_of d k = Some (frame_col d k)"
  by (cases "map_of d k") (simp_all add: frame_col_def map_of_eq_None_iff)

lemma class_filter:
  "map (cell_float \<circ> snd)
     (filter (\<lambda>(l, c). cell_eq_int l et)
        (zip (map (\<lambda>row. IntCell (lab row)) rows) (map (\<lambda>row. FloatCell (Fin (r row))) rows)))
   = map Fin (map r (filter (\<lambda>row. lab row = et) rows))"
  by (induction rows) simp_all

lemma this_data_table:
  assumes d: "distinct (consecutive binning)" and ne: "epochs \<noteq> []"
    and ch: "ch \<in> set eeg_chans" and j: "j < length (consecutive binning)"
  shows "this_data (power_ratios_dict bp epochs binning) et (ch @ ''_'' @ str_interval (consecutive binning ! j))
         = Inr (map Fin (map (\<lambda>row. ratios_of bp binning row ch ! j)
                          (filter (\<lambda>row. event_type row = et) epochs)))"
proof -
  let ?pr = "power_ratios_dict bp epochs binning"
  let ?key = "ch @ ''_'' @ str_interval (consecutive binning ! j)"
  have y: "map_of ?pr ''y'' = Some (map (\<lambda>row. IntCell (event_type row)) epochs)"
    using map_of_frame_col[of "''y''" ?pr] by (simp add: keys_power_ratios_dict y_power_ratios_dict)
  have "?key \<in> fst ` set ?pr"
    using ratio_key_in_table[OF ne ch, of "consecutive binning ! j" bp binning] j by simp
  then have k: "map_of ?pr ?key = Some (map (\<lambda>row. FloatCell (Fin (ratios_of bp binning row ch ! j))) epochs)"
    using map_of_frame_col[of ?key ?pr] ratio_power_ratios_dict[OF d ch j, of bp epochs] by simp
  show ?thesis
    unfolding this_data_def y k by (simp only: option.case class_filter)
qed

subsection \<open>The standard error of finite values\<close>

lemma fin_vals_map_Fin: "fin_vals (map Fin vs) = Some vs"
  by (induction vs) simp_all

lemma filter_nan_map_Fin: "filter (\<lambda>x. x \<noteq> NaN) (map Fin vs) = map Fin vs"
  by (induction vs) simp_all

lemma np_std_population:
  "np_std 0 (map Fin vs) = (if vs = [] then NaN else Fin (population_sd vs))"
  by (simp add: np_std_def filter_nan_map_Fin fin_vals_map_Fin population_sd_def mean_of_def)

lemma sem_of_finite:
  "sem_of (map Fin vs) = (if vs = [] then NaN else Fin (population_sd vs / sqrt (real (length vs))))"
  by (simp add: sem_of_def np_std_population np_sqrt_def)

lemma sqrt_100: "sqrt 100 = 10"
  using real_sqrt_abs[of 10] by simp

lemma demo_population_sd: "population_sd [3 / 5, 2 / 5] = 1 / 10"
  by (simp add: population_sd_def mean_of_def power2_eq_square real_sqrt_divide sqrt_100)

lemma demo_sample_sd: "sample_sd [3 / 5, 2 / 5] = sqrt 2 / 10"
proof -
  have "sample_sd [3 / 5, 2 / 5] = sqrt (2 / 100)"
    by (simp add: sample_sd_def mean_of_def power2_eq_square)
  then show ?thesis by (simp only: real_sqrt_divide sqrt_100)
qed

lemma demo_class_data:
  "this_data (power_ratios_dict demo_bin_power demo_epochs default_binning) 0 ''C3_(4, 7)''
     = Inr [Fin (3 / 5), Fin (2 / 5)]"
proof -
  have d: "distinct (consecutive default_binning)" by (simp add: demo_intervals)
  have j: "Suc 0 < length (consecutive default_binning)" by (simp add: demo_intervals)
  have c3: "''C3'' \<in> set eeg_chans" by (simp add: eeg_chans_def)
  have r: "\<And>row. ratios_of demo_bin_power default_binning row ''C3'' ! Suc 0 = sum_list (samples row ''C3'') / 5"
    by (simp add: ratios_of_def demo_bin_power_def default_binning_def)
  show ?thesis
    using this_data_table[OF d demo_epochs_ne c3 j, of demo_bin_power 0]
    by (simp add: demo_intervals str_interval_theta r demo_epochs_def)
qed

section \<open>Feature notebook: the claims\<close>

text \<open>
  Claim C4. For an ordered boundary list, \<^verbatim>\<open>getIntervals\<close> returns the consecutive
  pairs \<open>(b\<^sub>i, b\<^sub>i\<^sub>+\<^sub>1)\<close>, one fewer than there are boundaries. When the epoch table
  has an epoch and the power-bin routine returns one ratio per interval, the table
  \<^verbatim>\<open>power_ratios_df\<close> is built, and its columns are the label column \<^verbatim>\<open>y\<close> followed
  by one column for each channel and interval, keyed \<^verbatim>\<open>ch + "_" + str(interval)\<close>, all
  different, each with one value per epoch.
\<close>

theorem power_ratio_columns:
  assumes ordered: "sorted_wrt (\<lambda>a b. num_val a < num_val b) binning"
    and ne: "eeg_epoch_full_df \<noteq> []"
    and bp: "list_all (bin_power_ok bp binning (length binning - 1)) eeg_epoch_full_df"
  shows "\<exists>intervals P.
           getIntervals binning = Inr intervals \<and>
           length intervals = length binning - 1 \<and>
           (\<forall>i < length binning - 1. intervals ! i = (binning ! i, binning ! Suc i)) \<and>
           power_ratios_df bp eeg_epoch_full_df binning = Inr P \<and>
           map fst P = ''y'' # concat (map (\<lambda>ch. map (\<lambda>interval. ch @ ''_'' @ str_interval interval)
                                                   intervals) eeg_chans) \<and>
           distinct (map fst P) \<and>
           length P = 1 + length eeg_chans * (length binning - 1) \<and>
           list_all (\<lambda>c. length (snd c) = length eeg_epoch_full_df) P"
proof -
  let ?iv = "consecutive binning"
  let ?P = "power_ratios_dict bp eeg_epoch_full_df binning"
  have d: "distinct ?iv" using ordered by (rule distinct_consecutive)
  have sl: "same_length ?P" using d by (rule same_length_power_ratios_dict)
  have run: "power_ratios_df bp eeg_epoch_full_df binning = Inr ?P"
    using power_ratios_df_ok[OF bp] sl by (simp add: DataFrame_def)
  have keys: "map fst ?P = ''y'' # ratio_keys ?iv"
    using d ne by (rule map_fst_power_ratios_dict)
  have len: "length ?P = 1 + length eeg_chans * (length binning - 1)"
    using arg_cong[OF keys, of length]
    by (simp add: length_ratio_keys length_consecutive eeg_chans_def)
  have cols: "list_all (\<lambda>c. length (snd c) = length eeg_epoch_full_df) ?P"
    unfolding list_all_iff
  proof
    fix c assume c: "c \<in> set ?P"
    then have "frame_col ?P (fst c) = snd c"
      using distinct_power_ratios_dict[of bp eeg_epoch_full_df binning]
      by (cases c) (auto intro: frame_col_member)
    moreover have "length (frame_col ?P (fst c)) = length eeg_epoch_full_df"
      using c by (intro length_col_power_ratios_dict[OF d]) auto
    ultimately show "length (snd c) = length eeg_epoch_full_df" by simp
  qed
  show ?thesis
    using run keys len cols distinct_power_ratios_dict[of bp eeg_epoch_full_df binning]
    by (intro exI[of _ ?iv] exI[of _ ?P])
      (simp add: getIntervals_eq length_consecutive nth_consecutive ratio_keys_def)
qed

theorem power_ratio_columns_witness:
  "sorted_wrt (\<lambda>a b. num_val a < num_val b) default_binning \<and> demo_epochs \<noteq> [] \<and>
   (\<exists>P. getIntervals default_binning =
           Inr [(PyFloat False 0 [D5], PyInt 4), (PyInt 4, PyInt 7), (PyInt 7, PyInt 12),
                (PyInt 12, PyInt 30)] \<and>
        power_ratios_df demo_bin_power demo_epochs default_binning = Inr P \<and>
        map fst P =
          [''y'', ''C3_(0.5, 4)'', ''C3_(4, 7)'', ''C3_(7, 12)'', ''C3_(12, 30)'',
           ''Cz_(0.5, 4)'', ''Cz_(4, 7)'', ''Cz_(7, 12)'', ''Cz_(12, 30)'',
           ''C4_(0.5, 4)'', ''C4_(4, 7)'', ''C4_(7, 12)'', ''C4_(12, 30)''] \<and>
        length P = 13)"
proof -
  have ne: "demo_epochs \<noteq> []" by (simp add: demo_epochs_def)
  have iv: "getIntervals default_binning =
           Inr [(PyFloat False 0 [D5], PyInt 4), (PyInt 4, PyInt 7), (PyInt 7, PyInt 12),
                (PyInt 12, PyInt 30)]"
    by (simp add: getIntervals_eq consecutive_def default_binning_def)
  obtain intervals P where
    g: "getIntervals default_binning = Inr intervals"
    and run: "power_ratios_df demo_bin_power demo_epochs default_binning = Inr P"
    and keys: "map fst P = ''y'' # concat (map (\<lambda>ch. map (\<lambda>interval. ch @ ''_'' @ str_interval interval)
                                                   intervals) eeg_chans)"
    and len: "length P = 1 + length eeg_chans * (length default_binning - 1)"
    using power_ratio_columns[OF default_binning_ordered ne demo_bin_power_ok]
    by (elim exE conjE) (rule that; assumption)
  have intervals: "intervals = [(PyFloat False 0 [D5], PyInt 4), (PyInt 4, PyInt 7),
      (PyInt 7, PyInt 12), (PyInt 12, PyInt 30)]"
    using g iv by simp
  have mf: "map fst P =
          [''y'', ''C3_(0.5, 4)'', ''C3_(4, 7)'', ''C3_(7, 12)'', ''C3_(12, 30)'',
           ''Cz_(0.5, 4)'', ''Cz_(4, 7)'', ''Cz_(7, 12)'', ''Cz_(12, 30)'',
           ''C4_(0.5, 4)'', ''C4_(4, 7)'', ''C4_(7, 12)'', ''C4_(12, 30)'']"
    unfolding keys intervals
    by (simp add: eeg_chans_def str_interval_def str_int_def nat_digit_def
        str_nat_small str_nat_big)
  have lenP: "length P = 13"
    using len by (simp add: eeg_chans_def default_binning_def)
  note ord = default_binning_ordered
  show ?thesis
    by (intro conjI exI[of _ P]) (fact ord ne iv run mf lenP)+
qed

text \<open>
  Claim C8, as the code has it. An empty boundary list is not rejected:
  \<^verbatim>\<open>getIntervals\<close> returns the empty interval list. The power-bin loop has no check
  of its own either: with no epochs its table holds the label column alone; with
  epochs it calls the power-bin routine on the empty list for every epoch and channel,
  and it raises exactly when that routine does, with the routine's error; otherwise
  the table again holds the label column alone.
\<close>

theorem empty_binning_not_rejected:
  "getIntervals [] = Inr [] \<and>
   power_ratios_df bp [] [] = Inr [(''y'', [])] \<and>
   (list_all (bin_power_ok bp [] 0) epochs \<longrightarrow>
      power_ratios_df bp epochs [] = Inr [(''y'', map (\<lambda>row. IntCell (event_type row)) epochs)]) \<and>
   (\<not> list_all (bin_power_ok bp [] 0) epochs \<longrightarrow>
      (\<exists>e row ch. row \<in> set epochs \<and> ch \<in> set eeg_chans \<and>
         bp (samples row ch) [] 250 = Inl e \<and> power_ratios_df bp epochs [] = Inl e))"
proof (intro conjI impI)
  show "getIntervals [] = Inr []" by (simp add: getIntervals_eq consecutive_def)
  show "power_ratios_df bp [] [] = Inr [(''y'', [])]"
    by (simp add: power_ratios_df_def getIntervals_eq consecutive_def DataFrame_def)
next
  assume ok: "list_all (bin_power_ok bp [] 0) epochs"
  have c: "consecutive ([] :: pynum list) = []" by (simp add: consecutive_def)
  have d: "distinct (consecutive ([] :: pynum list))" by (simp add: c)
  let ?P = "power_ratios_dict bp epochs []"
  have "map fst ?P = [''y'']"
  proof (cases "epochs = []")
    case True
    then show ?thesis by (simp add: power_ratios_dict_def)
  next
    case False
    then show ?thesis
      using map_fst_power_ratios_dict[OF d False, of bp] by (simp add: c ratio_keys_def)
  qed
  then obtain col where P: "?P = [(''y'', col)]" by (cases ?P) auto
  then have "frame_col ?P ''y'' = col" by (simp add: frame_col_def)
  then have "col = map (\<lambda>row. IntCell (event_type row)) epochs"
    by (simp only: y_power_ratios_dict)
  then show "power_ratios_df bp epochs [] = Inr [(''y'', map (\<lambda>row. IntCell (event_type row)) epochs)]"
    using power_ratios_df_ok[of bp "[]" epochs] ok P by (simp add: DataFrame_def)
next
  assume bad: "\<not> list_all (bin_power_ok bp [] 0) epochs"
  let ?loop = "for_loop (power_ratios_row bp [] []) epochs [(''y'', [])]"
  obtain e where e: "?loop = Inl e"
    using power_ratios_loop_fail[of bp "[]" "[]" epochs "[(''y'', [])]"] bad by auto
  then obtain row t where row: "row \<in> set epochs" "power_ratios_row bp [] [] row t = Inl e"
    using for_loop_Inl by fastforce
  then have "for_loop (chan_step bp [] [] row) eeg_chans t = Inl e"
    by (simp add: power_ratios_row_chan_step split: sum.splits)
  then obtain ch t' where ch: "ch \<in> set eeg_chans" "chan_step bp [] [] row ch t' = Inl e"
    using for_loop_Inl by fastforce
  then have "bp (samples row ch) [] 250 = Inl e"
    by (simp add: chan_step_def getPowerRatio_def split: sum.splits prod.splits)
  moreover have "power_ratios_df bp epochs [] = Inl e"
    using e by (simp add: power_ratios_df_def getIntervals_eq consecutive_def)
  ultimately show "\<exists>e row ch. row \<in> set epochs \<and> ch \<in> set eeg_chans \<and>
         bp (samples row ch) [] 250 = Inl e \<and> power_ratios_df bp epochs [] = Inl e"
    using row(1) ch(1) by blast
qed

theorem empty_binning_not_rejected_witness:
  "getIntervals [] = Inr [] \<and>
   power_ratios_df demo_bin_power [] [] = Inr [(''y'', [])] \<and>
   \<not> list_all (bin_power_ok demo_bin_power [] 0) demo_epochs \<and>
   power_ratios_df demo_bin_power demo_epochs [] = Inl ValueError"
proof -
  have bad: "\<not> list_all (bin_power_ok demo_bin_power [] 0) demo_epochs"
    by (simp add: bin_power_ok_def demo_bin_power_def demo_epochs_def eeg_chans_def)
  have "\<And>X. demo_bin_power X [] 250 = Inl ValueError" by (simp add: demo_bin_power_def)
  then show ?thesis
    using empty_binning_not_rejected[of demo_bin_power demo_epochs] bad by auto
qed

text \<open>
  The empty boundary list on an empty epoch table: no error, the interval list is empty
  and the table holds the label column alone.
\<close>

theorem empty_binning_accepted:
  "getIntervals [] = Inr [] \<and> power_ratios_df demo_bin_power [] [] = Inr [(''y'', [])]"
  by (simp add: getIntervals_eq consecutive_def power_ratios_df_def DataFrame_def)

text \<open>
  Claim C7. The band-ratio cell divides the theta value by the beta value of every
  row and channel with no test of the denominator. On a frame that has the columns
  \<^verbatim>\<open>ch_(4, 7)\<close> and \<^verbatim>\<open>ch_(12, 30)\<close> of every channel the cell returns a table, whose
  column \<^verbatim>\<open>ch_theta_beta\<close> holds the quotient of each row, whatever the beta value is;
  where the beta value is zero the quotient is an infinity or NaN, as numpy computes it,
  and no error is raised.
\<close>

theorem band_ratio_unguarded:
  assumes frame: "same_length pr"
    and keys: "\<forall>ch \<in> set eeg_chans.
                 ch @ ''_(4, 7)'' \<in> fst ` set pr \<and> ch @ ''_(12, 30)'' \<in> fst ` set pr"
  shows "\<exists>br. band_ratios_df pr = Inr br \<and>
           (\<forall>ch \<in> set eeg_chans.
              frame_col br (ch @ ''_theta_beta'') =
                map (\<lambda>i. FloatCell (np_divide (cell_float (frame_col pr (ch @ ''_(4, 7)'') ! i))
                                               (cell_float (frame_col pr (ch @ ''_(12, 30)'') ! i))))
                  [0..<nrows pr]) \<and>
           (\<forall>ch \<in> set eeg_chans. \<forall>i < nrows pr.
              cell_float (frame_col pr (ch @ ''_(12, 30)'') ! i) = Fin 0 \<longrightarrow>
              frame_col br (ch @ ''_theta_beta'') ! i \<in> {FloatCell PosInf, FloatCell NegInf, FloatCell NaN})"
proof -
  have run: "band_ratios_df pr = Inr (band_dict pr)"
    using keys by (intro band_ratios_df_ok) simp
  have col: "\<And>ch. ch \<in> set eeg_chans \<Longrightarrow>
      frame_col (band_dict pr) (ch @ ''_theta_beta'') =
        map (\<lambda>i. FloatCell (np_divide (cell_float (frame_col pr (ch @ ''_(4, 7)'') ! i))
                                       (cell_float (frame_col pr (ch @ ''_(12, 30)'') ! i))))
          [0..<nrows pr]"
    by (simp add: frame_col_band_dict theta_beta_value_def)
  have zero: "\<And>ch i. ch \<in> set eeg_chans \<Longrightarrow> i < nrows pr \<Longrightarrow>
      cell_float (frame_col pr (ch @ ''_(12, 30)'') ! i) = Fin 0 \<Longrightarrow>
      frame_col (band_dict pr) (ch @ ''_theta_beta'') ! i \<in> {FloatCell PosInf, FloatCell NegInf, FloatCell NaN}"
  proof -
    fix ch i
    assume ch: "ch \<in> set eeg_chans" and i: "i < nrows pr"
      and z: "cell_float (frame_col pr (ch @ ''_(12, 30)'') ! i) = Fin 0"
    have "frame_col (band_dict pr) (ch @ ''_theta_beta'') ! i =
        FloatCell (np_divide (cell_float (frame_col pr (ch @ ''_(4, 7)'') ! i)) (Fin 0))"
      using i by (simp add: col[OF ch] z)
    then show "frame_col (band_dict pr) (ch @ ''_theta_beta'') ! i \<in> {FloatCell PosInf, FloatCell NegInf, FloatCell NaN}"
      using np_divide_zero[of "cell_float (frame_col pr (ch @ ''_(4, 7)'') ! i)"] by auto
  qed
  show ?thesis
    using run col zero by (intro exI[of _ "band_dict pr"]) blast
qed

theorem band_ratio_unguarded_witness:
  "same_length demo_ratios \<and>
   (\<exists>br. band_ratios_df demo_ratios = Inr br \<and>
      frame_col br ''C3_theta_beta'' = [FloatCell (Fin (1 / 4)), FloatCell PosInf] \<and>
      frame_col br ''Cz_theta_beta'' = [FloatCell (Fin 0), FloatCell NaN] \<and>
      frame_col br ''C4_theta_beta'' = [FloatCell (Fin (- 1 / 2)), FloatCell NegInf])"
proof -
  have frame: "same_length demo_ratios"
    by (simp add: demo_ratios_def)
  have keys: "\<forall>ch \<in> set eeg_chans.
      ch @ ''_(4, 7)'' \<in> fst ` set demo_ratios \<and> ch @ ''_(12, 30)'' \<in> fst ` set demo_ratios"
    by (simp add: eeg_chans_def demo_ratios_def)
  have n: "[0..<nrows demo_ratios] = [0, 1]"
    by (simp add: demo_ratios_def upt_rec)
  obtain br where run: "band_ratios_df demo_ratios = Inr br"
    and col: "\<forall>ch \<in> set eeg_chans.
              frame_col br (ch @ ''_theta_beta'') =
                map (\<lambda>i. FloatCell (np_divide (cell_float (frame_col demo_ratios (ch @ ''_(4, 7)'') ! i))
                                               (cell_float (frame_col demo_ratios (ch @ ''_(12, 30)'') ! i))))
                  [0..<nrows demo_ratios]"
    using band_ratio_unguarded[OF frame keys] by (elim exE conjE) (rule that; assumption)
  have c3: "frame_col br ''C3_theta_beta'' = [FloatCell (Fin (1 / 4)), FloatCell PosInf]"
    using bspec[OF col, of "''C3''"] unfolding n
    by (simp add: eeg_chans_def demo_ratios_def frame_col_def)
  have cz: "frame_col br ''Cz_theta_beta'' = [FloatCell (Fin 0), FloatCell NaN]"
    using bspec[OF col, of "''Cz''"] unfolding n
    by (simp add: eeg_chans_def demo_ratios_def frame_col_def)
  have c4: "frame_col br ''C4_theta_beta'' = [FloatCell (Fin (- 1 / 2)), FloatCell NegInf]"
    using bspec[OF col, of "''C4''"] unfolding n
    by (simp add: eeg_chans_def demo_ratios_def frame_col_def)
  show ?thesis
    by (intro conjI exI[of _ br]) (fact frame run c3 cz c4)+
qed

text \<open>
  Claim C10. The band-ratio cell reads the columns \<^verbatim>\<open>ch_(4, 7)\<close> and
  \<^verbatim>\<open>ch_(12, 30)\<close>, whose names are written out in the code. On the power-bin table of
  a non-empty epoch table these columns exist exactly when the interval list holds the
  pairs \<open>(4, 7)\<close> and \<open>(12, 30)\<close> of integer boundaries. Without the first pair the cell
  raises \<^verbatim>\<open>KeyError\<close> for \<^verbatim>\<open>C3_(4, 7)\<close>; with the first and without the second
  it raises \<^verbatim>\<open>KeyError\<close> for \<^verbatim>\<open>C3_(12, 30)\<close>; with both it returns a table. So it
  returns only when the boundary list has 4 followed by 7 and 12 followed by 30.
\<close>

theorem band_ratio_keys:
  assumes table: "power_ratios_df bp eeg_epoch_full_df binning = Inr pr"
    and ne: "eeg_epoch_full_df \<noteq> []"
    and iv: "getIntervals binning = Inr intervals"
  shows "((PyInt 4, PyInt 7) \<notin> set intervals \<longrightarrow>
            band_ratios_df pr = Inl (KeyError ''C3_(4, 7)'')) \<and>
         ((PyInt 4, PyInt 7) \<in> set intervals \<and> (PyInt 12, PyInt 30) \<notin> set intervals \<longrightarrow>
            band_ratios_df pr = Inl (KeyError ''C3_(12, 30)'')) \<and>
         ((PyInt 4, PyInt 7) \<in> set intervals \<and> (PyInt 12, PyInt 30) \<in> set intervals \<longrightarrow>
            (\<exists>br. band_ratios_df pr = Inr br)) \<and>
         ((\<exists>br. band_ratios_df pr = Inr br) \<longrightarrow>
            (\<exists>i. Suc i < length binning \<and> num_val (binning ! i) = 4 \<and> num_val (binning ! Suc i) = 7) \<and>
            (\<exists>i. Suc i < length binning \<and> num_val (binning ! i) = 12 \<and> num_val (binning ! Suc i) = 30))"
proof -
  have pr: "pr = power_ratios_dict bp eeg_epoch_full_df binning"
    using table by (rule power_ratios_df_Inr(2))
  have intervals: "intervals = consecutive binning"
    using iv by (simp add: getIntervals_eq)
  have rows: "0 < nrows pr"
    using ne by (simp add: pr nrows_power_ratios_dict)
  have c3: "''C3'' \<in> set eeg_chans" by (simp add: eeg_chans_def)
  have theta: "\<And>ch. ch \<in> set eeg_chans \<Longrightarrow>
      ch @ ''_(4, 7)'' \<in> fst ` set pr \<longleftrightarrow> (PyInt 4, PyInt 7) \<in> set intervals"
    unfolding pr intervals using ne by (rule theta_key_in_table)
  have beta: "\<And>ch. ch \<in> set eeg_chans \<Longrightarrow>
      ch @ ''_(12, 30)'' \<in> fst ` set pr \<longleftrightarrow> (PyInt 12, PyInt 30) \<in> set intervals"
    unfolding pr intervals using ne by (rule beta_key_in_table)
  have no_theta: "(PyInt 4, PyInt 7) \<notin> set intervals \<Longrightarrow>
      band_ratios_df pr = Inl (KeyError ''C3_(4, 7)'')"
    using band_ratios_df_no_theta[OF rows] theta[OF c3] by simp
  have no_beta: "(PyInt 4, PyInt 7) \<in> set intervals \<Longrightarrow> (PyInt 12, PyInt 30) \<notin> set intervals \<Longrightarrow>
      band_ratios_df pr = Inl (KeyError ''C3_(12, 30)'')"
    using band_ratios_df_no_beta[OF rows] theta[OF c3] beta[OF c3] by simp
  have both: "(PyInt 4, PyInt 7) \<in> set intervals \<Longrightarrow> (PyInt 12, PyInt 30) \<in> set intervals \<Longrightarrow>
      \<exists>br. band_ratios_df pr = Inr br"
    using band_ratios_df_ok[of pr] theta beta by simp
  have pair: "\<And>a b. (PyInt a, PyInt b) \<in> set intervals \<Longrightarrow>
      \<exists>i. Suc i < length binning \<and> num_val (binning ! i) = of_int a \<and> num_val (binning ! Suc i) = of_int b"
  proof -
    fix a b assume "(PyInt a, PyInt b) \<in> set intervals"
    then obtain i where i: "i < length (consecutive binning)" "consecutive binning ! i = (PyInt a, PyInt b)"
      by (auto simp: intervals in_set_conv_nth)
    then have "Suc i < length binning" "binning ! i = PyInt a" "binning ! Suc i = PyInt b"
      using nth_consecutive[of i binning] by (simp_all add: length_consecutive)
    then show "\<exists>i. Suc i < length binning \<and> num_val (binning ! i) = of_int a \<and> num_val (binning ! Suc i) = of_int b"
      by (intro exI[of _ i]) simp
  qed
  have only: "\<exists>br. band_ratios_df pr = Inr br \<Longrightarrow>
      (\<exists>i. Suc i < length binning \<and> num_val (binning ! i) = 4 \<and> num_val (binning ! Suc i) = 7) \<and>
      (\<exists>i. Suc i < length binning \<and> num_val (binning ! i) = 12 \<and> num_val (binning ! Suc i) = 30)"
  proof -
    assume ok: "\<exists>br. band_ratios_df pr = Inr br"
    have t: "(PyInt 4, PyInt 7) \<in> set intervals"
      using ok no_theta by (cases "(PyInt 4, PyInt 7) \<in> set intervals") auto
    have b: "(PyInt 12, PyInt 30) \<in> set intervals"
      using ok no_beta[OF t] by (cases "(PyInt 12, PyInt 30) \<in> set intervals") auto
    show ?thesis using pair[OF t] pair[OF b] by simp
  qed
  show ?thesis
    using no_theta no_beta both only by (intro conjI impI) blast+
qed

theorem band_ratio_keys_witness:
  "demo_epochs \<noteq> [] \<and>
   (\<exists>pr br. power_ratios_df demo_bin_power demo_epochs default_binning = Inr pr \<and>
            band_ratios_df pr = Inr br) \<and>
   (\<exists>pr. power_ratios_df demo_bin_power demo_epochs [PyInt 4, PyInt 7] = Inr pr \<and>
         band_ratios_df pr = Inl (KeyError ''C3_(12, 30)'')) \<and>
   (\<exists>pr. power_ratios_df demo_bin_power demo_epochs
           [PyFloat False 4 [D0], PyFloat False 7 [D0], PyInt 12, PyInt 30] = Inr pr \<and>
         band_ratios_df pr = Inl (KeyError ''C3_(4, 7)''))"
proof -
  let ?B2 = "[PyInt 4, PyInt 7]"
  let ?B3 = "[PyFloat False 4 [D0], PyFloat False 7 [D0], PyInt 12, PyInt 30]"
  have ne: "demo_epochs \<noteq> []" by (simp add: demo_epochs_def)
  have ok1: "list_all (bin_power_ok demo_bin_power default_binning (length default_binning - 1)) demo_epochs"
    by (simp add: bin_power_ok_def demo_bin_power_def demo_epochs_def default_binning_def eeg_chans_def)
  have ok2: "list_all (bin_power_ok demo_bin_power ?B2 (length ?B2 - 1)) demo_epochs"
    by (simp add: bin_power_ok_def demo_bin_power_def demo_epochs_def eeg_chans_def)
  have ok3: "list_all (bin_power_ok demo_bin_power ?B3 (length ?B3 - 1)) demo_epochs"
    by (simp add: bin_power_ok_def demo_bin_power_def demo_epochs_def eeg_chans_def)
  have c1: "consecutive default_binning =
      [(PyFloat False 0 [D5], PyInt 4), (PyInt 4, PyInt 7), (PyInt 7, PyInt 12), (PyInt 12, PyInt 30)]"
    by (simp add: consecutive_def default_binning_def)
  have c2: "consecutive ?B2 = [(PyInt 4, PyInt 7)]"
    by (simp add: consecutive_def)
  have c3: "consecutive ?B3 =
      [(PyFloat False 4 [D0], PyFloat False 7 [D0]), (PyFloat False 7 [D0], PyInt 12), (PyInt 12, PyInt 30)]"
    by (simp add: consecutive_def)
  have t1: "power_ratios_df demo_bin_power demo_epochs default_binning
      = Inr (power_ratios_dict demo_bin_power demo_epochs default_binning)"
    using ok1 by (rule demo_table) (simp add: c1)
  have t2: "power_ratios_df demo_bin_power demo_epochs ?B2
      = Inr (power_ratios_dict demo_bin_power demo_epochs ?B2)"
    using ok2 by (rule demo_table) (simp add: c2)
  have t3: "power_ratios_df demo_bin_power demo_epochs ?B3
      = Inr (power_ratios_dict demo_bin_power demo_epochs ?B3)"
    using ok3 by (rule demo_table) (simp add: c3)
  have r1: "\<exists>br. band_ratios_df (power_ratios_dict demo_bin_power demo_epochs default_binning) = Inr br"
    using band_ratio_keys[OF t1 ne getIntervals_eq] by (simp add: c1)
  have r2: "band_ratios_df (power_ratios_dict demo_bin_power demo_epochs ?B2) = Inl (KeyError ''C3_(12, 30)'')"
    using band_ratio_keys[OF t2 ne getIntervals_eq] by (simp add: c2)
  have r3: "band_ratios_df (power_ratios_dict demo_bin_power demo_epochs ?B3) = Inl (KeyError ''C3_(4, 7)'')"
    using band_ratio_keys[OF t3 ne getIntervals_eq] by (simp add: c3)
  show ?thesis
    using ne t1 t2 t3 r1 r2 r3 by simp
qed

text \<open>
  Claim C9. On the power-bin table \<open>pr\<close> of the epochs, once the band-ratio cell has
  returned its table \<open>br\<close>, the channel-difference cell returns a table \<open>cd\<close>: for
  every interval its column \<^verbatim>\<open>C3_C4_diff_<interval>\<close> holds, row by row, the C3 value
  of the interval minus the C4 value (both are numbers \<open>a\<close> and \<open>b\<close>, and the cell is
  \<open>a - b\<close>), and it has no other column. The feature table is the columns of \<open>pr\<close>, as
  they were, followed by those of \<open>br\<close> and those of \<open>cd\<close>.
\<close>

theorem channel_differences:
  assumes table: "power_ratios_df bp eeg_epoch_full_df binning = Inr pr"
    and band: "band_ratios_df pr = Inr br"
    and iv: "getIntervals binning = Inr intervals"
  shows "\<exists>cd. C3_C4_differences_df pr intervals = Inr cd \<and>
           (\<forall>interval \<in> set intervals.
              frame_col cd (''C3_C4_diff_'' @ str_interval interval) =
                map (\<lambda>i. FloatCell (np_subtract
                            (cell_float (frame_col pr (''C3_'' @ str_interval interval) ! i))
                            (cell_float (frame_col pr (''C4_'' @ str_interval interval) ! i))))
                  [0..<nrows pr]) \<and>
           (\<forall>interval \<in> set intervals. \<forall>i < nrows pr. \<exists>a b.
              frame_col pr (''C3_'' @ str_interval interval) ! i = FloatCell (Fin a) \<and>
              frame_col pr (''C4_'' @ str_interval interval) ! i = FloatCell (Fin b) \<and>
              frame_col cd (''C3_C4_diff_'' @ str_interval interval) ! i = FloatCell (Fin (a - b))) \<and>
           fst ` set cd = (if eeg_epoch_full_df = [] then {}
                           else (\<lambda>interval. ''C3_C4_diff_'' @ str_interval interval) ` set intervals) \<and>
           feature_df bp eeg_epoch_full_df binning = Inr (pr @ br @ cd)"
proof -
  let ?cd = "diff_dict pr intervals"
  have pr: "pr = power_ratios_dict bp eeg_epoch_full_df binning"
    using table by (rule power_ratios_df_Inr(2))
  have sl: "same_length pr" using table by (rule power_ratios_df_Inr(3))
  have intervals: "intervals = consecutive binning"
    using iv by (simp add: getIntervals_eq)
  have n: "nrows pr = length eeg_epoch_full_df"
    by (simp add: pr nrows_power_ratios_dict)
  have br: "br = band_dict pr"
    using band unfolding pr by (rule band_ratios_df_of_table)
  have run_cols: "C3_C4_differences_df pr intervals = Inr ?cd \<and>
      (\<forall>c \<in> set ?cd. length (snd c) = nrows pr) \<and>
      (\<forall>interval \<in> set intervals.
         frame_col ?cd (''C3_C4_diff_'' @ str_interval interval) =
           map (\<lambda>i. diff_value pr i interval) [0..<nrows pr]) \<and>
      (\<forall>interval \<in> set intervals. \<forall>i < nrows pr. \<exists>a b.
              frame_col pr (''C3_'' @ str_interval interval) ! i = FloatCell (Fin a) \<and>
              frame_col pr (''C4_'' @ str_interval interval) ! i = FloatCell (Fin b))"
  proof (cases "eeg_epoch_full_df = []")
    case True
    then have z: "nrows pr = 0" by (simp add: n)
    then show ?thesis
      by (simp add: C3_C4_differences_df_no_rows diff_dict_no_rows frame_col_def)
  next
    case False
    have d: "distinct intervals"
      unfolding intervals using sl False unfolding pr by (rule valid_frame_distinct_intervals)
    have c3: "''C3'' \<in> set eeg_chans" and c4: "''C4'' \<in> set eeg_chans"
      by (simp_all add: eeg_chans_def)
    have keys: "\<And>interval. interval \<in> set intervals \<Longrightarrow>
             ''C3_'' @ str_interval interval \<in> fst ` set pr \<and>
             ''C4_'' @ str_interval interval \<in> fst ` set pr"
      using ratio_key_in_table[OF False c3, of _ bp binning]
        ratio_key_in_table[OF False c4, of _ bp binning]
      by (simp add: pr intervals)
    have fin: "\<And>interval i. interval \<in> set intervals \<Longrightarrow> i < nrows pr \<Longrightarrow> \<exists>a b.
              frame_col pr (''C3_'' @ str_interval interval) ! i = FloatCell (Fin a) \<and>
              frame_col pr (''C4_'' @ str_interval interval) ! i = FloatCell (Fin b)"
    proof -
      fix interval i assume "interval \<in> set intervals" and i: "i < nrows pr"
      then obtain j where j: "j < length (consecutive binning)" "consecutive binning ! j = interval"
        by (auto simp: intervals in_set_conv_nth)
      have "frame_col pr (''C3'' @ ''_'' @ str_interval interval) ! i
            = FloatCell (Fin (ratios_of bp binning (eeg_epoch_full_df ! i) ''C3'' ! j))"
        "frame_col pr (''C4'' @ ''_'' @ str_interval interval) ! i
            = FloatCell (Fin (ratios_of bp binning (eeg_epoch_full_df ! i) ''C4'' ! j))"
        using ratio_power_ratios_dict[OF d[unfolded intervals] c3 j(1), of bp eeg_epoch_full_df]
          ratio_power_ratios_dict[OF d[unfolded intervals] c4 j(1), of bp eeg_epoch_full_df]
          i n j(2) unfolding pr by simp_all
      then show "\<exists>a b.
              frame_col pr (''C3_'' @ str_interval interval) ! i = FloatCell (Fin a) \<and>
              frame_col pr (''C4_'' @ str_interval interval) ! i = FloatCell (Fin b)"
        by simp
    qed
    show ?thesis
      using C3_C4_differences_df_ok[OF keys d] cols_diff_dict[OF d, of _ pr]
        frame_col_diff_dict[OF d, of _ pr] fin
      by (intro conjI ballI allI impI) simp_all
  qed
  have run: "C3_C4_differences_df pr intervals = Inr ?cd" using run_cols by simp
  have cols: "\<And>c. c \<in> set ?cd \<Longrightarrow> length (snd c) = nrows pr" using run_cols by simp
  have vals: "\<And>interval. interval \<in> set intervals \<Longrightarrow>
      frame_col ?cd (''C3_C4_diff_'' @ str_interval interval) =
        map (\<lambda>i. FloatCell (np_subtract
                    (cell_float (frame_col pr (''C3_'' @ str_interval interval) ! i))
                    (cell_float (frame_col pr (''C4_'' @ str_interval interval) ! i))))
          [0..<nrows pr]"
    using run_cols by (simp add: diff_value_def)
  have fin: "\<And>interval i. interval \<in> set intervals \<Longrightarrow> i < nrows pr \<Longrightarrow> \<exists>a b.
              frame_col pr (''C3_'' @ str_interval interval) ! i = FloatCell (Fin a) \<and>
              frame_col pr (''C4_'' @ str_interval interval) ! i = FloatCell (Fin b) \<and>
              frame_col ?cd (''C3_C4_diff_'' @ str_interval interval) ! i = FloatCell (Fin (a - b))"
  proof -
    fix interval i assume iv: "interval \<in> set intervals" and i: "i < nrows pr"
    then obtain a b where ab: "frame_col pr (''C3_'' @ str_interval interval) ! i = FloatCell (Fin a)"
      "frame_col pr (''C4_'' @ str_interval interval) ! i = FloatCell (Fin b)"
      using run_cols by blast
    have "frame_col ?cd (''C3_C4_diff_'' @ str_interval interval) ! i = FloatCell (Fin (a - b))"
      unfolding vals[OF iv] using i ab by simp
    then show "\<exists>a b.
              frame_col pr (''C3_'' @ str_interval interval) ! i = FloatCell (Fin a) \<and>
              frame_col pr (''C4_'' @ str_interval interval) ! i = FloatCell (Fin b) \<and>
              frame_col ?cd (''C3_C4_diff_'' @ str_interval interval) ! i = FloatCell (Fin (a - b))"
      using ab by blast
  qed
  have keys_cd: "fst ` set ?cd = (if eeg_epoch_full_df = [] then {}
                           else (\<lambda>interval. ''C3_C4_diff_'' @ str_interval interval) ` set intervals)"
    by (simp add: diff_dict_def keys_table_dict n)
  have "pd_concat [pr, br, ?cd] = concat [pr, br, ?cd]"
  proof (rule pd_concat_same_rows)
    fix f c assume "f \<in> set [pr, br, ?cd]" and c: "c \<in> set f"
    then consider "f = pr" | "f = br" | "f = ?cd" by auto
    then show "length (snd c) = nrows pr"
    proof cases
      case 1
      then show ?thesis using same_length_all_cols[OF sl] c by simp
    next
      case 2
      then show ?thesis using cols_band_dict[of c pr] c by (simp add: br)
    next
      case 3
      then show ?thesis using cols c by simp
    qed
  qed
  then have feat: "feature_df bp eeg_epoch_full_df binning = Inr (pr @ br @ ?cd)"
    using table band iv run by (simp add: feature_df_def)
  show ?thesis
    using run vals fin keys_cd feat by (intro exI[of _ ?cd]) blast
qed

theorem channel_differences_witness:
  "\<exists>pr br cd.
     power_ratios_df demo_bin_power demo_epochs default_binning = Inr pr \<and>
     band_ratios_df pr = Inr br \<and>
     C3_C4_differences_df pr
       [(PyFloat False 0 [D5], PyInt 4), (PyInt 4, PyInt 7), (PyInt 7, PyInt 12), (PyInt 12, PyInt 30)]
       = Inr cd \<and>
     frame_col pr ''C3_(4, 7)'' = [FloatCell (Fin (3 / 5)), FloatCell (Fin (1 / 5)), FloatCell (Fin (2 / 5))] \<and>
     frame_col pr ''C4_(4, 7)'' = [FloatCell (Fin (3 / 5)), FloatCell (Fin 0), FloatCell (Fin (2 / 5))] \<and>
     frame_col cd ''C3_C4_diff_(4, 7)'' = [FloatCell (Fin 0), FloatCell (Fin (1 / 5)), FloatCell (Fin 0)] \<and>
     feature_df demo_bin_power demo_epochs default_binning = Inr (pr @ br @ cd)"
proof -
  let ?pr = "power_ratios_dict demo_bin_power demo_epochs default_binning"
  let ?br = "band_dict ?pr"
  let ?iv = "[(PyFloat False 0 [D5], PyInt 4), (PyInt 4, PyInt 7), (PyInt 7, PyInt 12), (PyInt 12, PyInt 30)]"
  have iv: "getIntervals default_binning = Inr ?iv"
    by (simp add: getIntervals_eq demo_intervals)
  obtain cd where run: "C3_C4_differences_df ?pr ?iv = Inr cd"
    and col: "\<forall>interval \<in> set ?iv.
              frame_col cd (''C3_C4_diff_'' @ str_interval interval) =
                map (\<lambda>i. FloatCell (np_subtract
                            (cell_float (frame_col ?pr (''C3_'' @ str_interval interval) ! i))
                            (cell_float (frame_col ?pr (''C4_'' @ str_interval interval) ! i))))
                  [0..<nrows ?pr]"
    and feat: "feature_df demo_bin_power demo_epochs default_binning = Inr (?pr @ ?br @ cd)"
    using channel_differences[OF demo_power_ratios demo_band_ratios iv]
    by (elim exE conjE) (rule that; assumption)
  have c3: "frame_col ?pr ''C3_(4, 7)'' = [FloatCell (Fin (3 / 5)), FloatCell (Fin (1 / 5)), FloatCell (Fin (2 / 5))]"
    using demo_theta_col[of "''C3''"] by (simp add: eeg_chans_def demo_epochs_def)
  have c4: "frame_col ?pr ''C4_(4, 7)'' = [FloatCell (Fin (3 / 5)), FloatCell (Fin 0), FloatCell (Fin (2 / 5))]"
    using demo_theta_col[of "''C4''"] by (simp add: eeg_chans_def demo_epochs_def)
  have n: "[0..<nrows ?pr] = [0, 1, 2]"
    by (simp add: nrows_power_ratios_dict demo_epochs_def upt_rec)
  have "frame_col cd (''C3_C4_diff_'' @ str_interval (PyInt 4, PyInt 7)) =
        map (\<lambda>i. FloatCell (np_subtract
                    (cell_float (frame_col ?pr (''C3_'' @ str_interval (PyInt 4, PyInt 7)) ! i))
                    (cell_float (frame_col ?pr (''C4_'' @ str_interval (PyInt 4, PyInt 7)) ! i))))
          [0..<nrows ?pr]"
    using col by simp
  then have d: "frame_col cd ''C3_C4_diff_(4, 7)'' = [FloatCell (Fin 0), FloatCell (Fin (1 / 5)), FloatCell (Fin 0)]"
    unfolding n using c3 c4 by (simp add: str_interval_theta)
  note t = demo_power_ratios and b = demo_band_ratios
  show ?thesis
    by (intro exI[of _ ?pr] exI[of _ ?br] exI[of _ cd] conjI) (fact t b run c3 c4 d feat)+
qed

text \<open>
  Claim C5. On the power-bin table of a non-empty epoch table the statistics cell
  returns the table \<^verbatim>\<open>std_err_df\<close>. For every channel and interval its column holds
  one entry per class label, 0 and 1 in this order. The values \<open>vs\<close> of the feature
  column in the epochs of the label are numbers, as many as the label has epochs, and
  the entry is their population standard deviation (\<^verbatim>\<open>np.std\<close> passes \<^verbatim>\<open>ddof=0\<close>)
  divided by the square root of their count; it is NaN when the label has no epoch.
\<close>

theorem sem_population_sd:
  assumes table: "power_ratios_df bp eeg_epoch_full_df binning = Inr pr"
    and ne: "eeg_epoch_full_df \<noteq> []"
    and iv: "getIntervals binning = Inr intervals"
  shows "\<exists>sems. std_err_df pr intervals = Inr sems \<and>
           (\<forall>ch \<in> set eeg_chans. \<forall>interval \<in> set intervals.
              length (frame_col sems (ch @ ''_'' @ str_interval interval)) = 2 \<and>
              (\<forall>et \<in> {0, 1}. \<exists>vs.
                 this_data pr et (ch @ ''_'' @ str_interval interval) = Inr (map Fin vs) \<and>
                 length vs = length (filter (\<lambda>row. event_type row = et) eeg_epoch_full_df) \<and>
                 frame_col sems (ch @ ''_'' @ str_interval interval) ! nat et =
                   (if vs = [] then NaN else Fin (population_sd vs / sqrt (real (length vs))))))"
proof -
  let ?sems = "stat_dict sem_of pr intervals"
  have pr: "pr = power_ratios_dict bp eeg_epoch_full_df binning"
    using table by (rule power_ratios_df_Inr(2))
  have sl: "same_length pr" using table by (rule power_ratios_df_Inr(3))
  have intervals: "intervals = consecutive binning"
    using iv by (simp add: getIntervals_eq)
  have d: "distinct intervals"
    unfolding intervals using sl ne unfolding pr by (rule valid_frame_distinct_intervals)
  have data: "\<And>et ch interval. ch \<in> set eeg_chans \<Longrightarrow> interval \<in> set intervals \<Longrightarrow>
      \<exists>vs. this_data pr et (ch @ ''_'' @ str_interval interval) = Inr (map Fin vs) \<and>
           length vs = length (filter (\<lambda>row. event_type row = et) eeg_epoch_full_df)"
  proof -
    fix et :: int and ch interval
    assume ch: "ch \<in> set eeg_chans" and "interval \<in> set intervals"
    then obtain j where j: "j < length (consecutive binning)" "consecutive binning ! j = interval"
      by (auto simp: intervals in_set_conv_nth)
    let ?vs = "map (\<lambda>row. ratios_of bp binning row ch ! j)
                 (filter (\<lambda>row. event_type row = et) eeg_epoch_full_df)"
    have "this_data pr et (ch @ ''_'' @ str_interval interval) = Inr (map Fin ?vs)"
      using this_data_table[OF d[unfolded intervals] ne ch j(1), of bp et] unfolding pr j(2) .
    then show "\<exists>vs. this_data pr et (ch @ ''_'' @ str_interval interval) = Inr (map Fin vs) \<and>
           length vs = length (filter (\<lambda>row. event_type row = et) eeg_epoch_full_df)"
      by (intro exI[of _ ?vs]) simp
  qed
  have "chan_frequency_stats pr intervals = Inr (?sems, stat_dict np_mean pr intervals)"
    by (rule chan_frequency_stats_ok) (use data in blast)
  then have run: "std_err_df pr intervals = Inr ?sems"
    using same_length_stat_dict[OF d, of sem_of pr] by (simp add: std_err_df_def DataFrame_def)
  have col: "\<And>ch interval. ch \<in> set eeg_chans \<Longrightarrow> interval \<in> set intervals \<Longrightarrow>
      frame_col ?sems (ch @ ''_'' @ str_interval interval)
        = [sem_of (class_data pr 0 (ch @ ''_'' @ str_interval interval)),
           sem_of (class_data pr 1 (ch @ ''_'' @ str_interval interval))]"
    using frame_col_stat_dict[OF d, of _ _ sem_of pr] by (simp add: event_types_def)
  have entry: "\<And>ch interval et. ch \<in> set eeg_chans \<Longrightarrow> interval \<in> set intervals \<Longrightarrow> et \<in> {0, 1} \<Longrightarrow>
      \<exists>vs. this_data pr et (ch @ ''_'' @ str_interval interval) = Inr (map Fin vs) \<and>
           length vs = length (filter (\<lambda>row. event_type row = et) eeg_epoch_full_df) \<and>
           frame_col ?sems (ch @ ''_'' @ str_interval interval) ! nat et =
             (if vs = [] then NaN else Fin (population_sd vs / sqrt (real (length vs))))"
  proof -
    fix ch interval and et :: int
    assume ch: "ch \<in> set eeg_chans" and i: "interval \<in> set intervals" and et: "et \<in> {0, 1}"
    obtain vs where vs: "this_data pr et (ch @ ''_'' @ str_interval interval) = Inr (map Fin vs)"
      "length vs = length (filter (\<lambda>row. event_type row = et) eeg_epoch_full_df)"
      using data[OF ch i, of et] by blast
    have cd: "class_data pr et (ch @ ''_'' @ str_interval interval) = map Fin vs"
      using vs(1) by (simp add: class_data_def)
    have "frame_col ?sems (ch @ ''_'' @ str_interval interval) ! nat et
        = sem_of (class_data pr et (ch @ ''_'' @ str_interval interval))"
      unfolding col[OF ch i] using et by auto
    then have "frame_col ?sems (ch @ ''_'' @ str_interval interval) ! nat et =
        (if vs = [] then NaN else Fin (population_sd vs / sqrt (real (length vs))))"
      unfolding cd by (simp only: sem_of_finite)
    then show "\<exists>vs. this_data pr et (ch @ ''_'' @ str_interval interval) = Inr (map Fin vs) \<and>
           length vs = length (filter (\<lambda>row. event_type row = et) eeg_epoch_full_df) \<and>
           frame_col ?sems (ch @ ''_'' @ str_interval interval) ! nat et =
             (if vs = [] then NaN else Fin (population_sd vs / sqrt (real (length vs))))"
      using vs by blast
  qed
  have len: "\<And>ch interval. ch \<in> set eeg_chans \<Longrightarrow> interval \<in> set intervals \<Longrightarrow>
      length (frame_col ?sems (ch @ ''_'' @ str_interval interval)) = 2"
    by (simp only: col list.size)
  show ?thesis
    using run len entry by (intro exI[of _ ?sems]) blast
qed

theorem sem_population_sd_witness:
  "demo_epochs \<noteq> [] \<and>
   (\<exists>pr sems.
      power_ratios_df demo_bin_power demo_epochs default_binning = Inr pr \<and>
      std_err_df pr
        [(PyFloat False 0 [D5], PyInt 4), (PyInt 4, PyInt 7), (PyInt 7, PyInt 12), (PyInt 12, PyInt 30)]
        = Inr sems \<and>
      this_data pr 0 ''C3_(4, 7)'' = Inr [Fin (3 / 5), Fin (2 / 5)] \<and>
      frame_col sems ''C3_(4, 7)'' ! 0 = Fin (population_sd [3 / 5, 2 / 5] / sqrt 2)) \<and>
   population_sd [3 / 5, 2 / 5] = 1 / 10 \<and>
   sample_sd [3 / 5, 2 / 5] = sqrt 2 / 10"
proof -
  let ?pr = "power_ratios_dict demo_bin_power demo_epochs default_binning"
  let ?iv = "[(PyFloat False 0 [D5], PyInt 4), (PyInt 4, PyInt 7), (PyInt 7, PyInt 12), (PyInt 12, PyInt 30)]"
  have iv: "getIntervals default_binning = Inr ?iv"
    by (simp add: getIntervals_eq demo_intervals)
  obtain sems where run: "std_err_df ?pr ?iv = Inr sems"
    and all: "\<forall>ch \<in> set eeg_chans. \<forall>interval \<in> set ?iv.
              length (frame_col sems (ch @ ''_'' @ str_interval interval)) = 2 \<and>
              (\<forall>et \<in> {0, 1}. \<exists>vs.
                 this_data ?pr et (ch @ ''_'' @ str_interval interval) = Inr (map Fin vs) \<and>
                 length vs = length (filter (\<lambda>row. event_type row = et) demo_epochs) \<and>
                 frame_col sems (ch @ ''_'' @ str_interval interval) ! nat et =
                   (if vs = [] then NaN else Fin (population_sd vs / sqrt (real (length vs)))))"
    using sem_population_sd[OF demo_power_ratios demo_epochs_ne iv]
    by (elim exE conjE) (rule that; assumption)
  have c3: "''C3'' \<in> set eeg_chans" by (simp add: eeg_chans_def)
  have i: "(PyInt 4, PyInt 7) \<in> set ?iv" by simp
  have z: "(0 :: int) \<in> {0, 1}" by simp
  have "\<exists>vs. this_data ?pr 0 (''C3'' @ ''_'' @ str_interval (PyInt 4, PyInt 7)) = Inr (map Fin vs) \<and>
      length vs = length (filter (\<lambda>row. event_type row = 0) demo_epochs) \<and>
      frame_col sems (''C3'' @ ''_'' @ str_interval (PyInt 4, PyInt 7)) ! nat 0 =
        (if vs = [] then NaN else Fin (population_sd vs / sqrt (real (length vs))))"
    using bspec[OF conjunct2[OF bspec[OF bspec[OF all c3] i]] z] .
  then obtain vs where vs: "this_data ?pr 0 ''C3_(4, 7)'' = Inr (map Fin vs)"
    and e: "frame_col sems ''C3_(4, 7)'' ! 0 =
        (if vs = [] then NaN else Fin (population_sd vs / sqrt (real (length vs))))"
    by (auto simp: str_interval_theta)
  have "map Fin vs = map Fin [3 / 5, 2 / 5]"
    using vs demo_class_data by simp
  moreover have "inj Fin" by (simp add: inj_def)
  ultimately have "vs = [3 / 5, 2 / 5]"
    by (simp only: inj_map_eq_map)
  then have entry: "frame_col sems ''C3_(4, 7)'' ! 0 = Fin (population_sd [3 / 5, 2 / 5] / sqrt 2)"
    using e by simp
  note ne = demo_epochs_ne and t = demo_power_ratios and cd = demo_class_data
    and p = demo_population_sd and s = demo_sample_sd
  show ?thesis
    by (intro conjI exI[of _ ?pr] exI[of _ sems]) (fact ne t run cd entry p s)+
qed

end
